theory Spec2Isabelle
  imports Main "HOL-Library.Sublist"
begin

section \<open>Data model (models.py)\<close>

text \<open>
  \<^verbatim>\<open>MessageType\<close> is a string enum; \<open>MessageType_value\<close> gives the string each member
  carries. The fields of \<^verbatim>\<open>Message\<close> and \<^verbatim>\<open>User\<close> carry a prefix, because a record
  field is a constant and \<^verbatim>\<open>id\<close>, \<^verbatim>\<open>username\<close> and \<^verbatim>\<open>room_id\<close> are needed as
  variable names below: \<open>msg_user_id\<close> is \<^verbatim>\<open>Message.user_id\<close>, \<open>usr_id\<close> is
  \<^verbatim>\<open>User.id\<close>, and so on.

  A \<^verbatim>\<open>User\<close> is an object that the registry keeps by reference and changes in place,
  so the record carries the identity of the object (what \<^verbatim>\<open>id(user)\<close> is in Python)
  in \<open>usr_object\<close>: two records with the same \<open>usr_object\<close> stand for one object, and two
  objects may carry the same \<^verbatim>\<open>id\<close> field.
\<close>

datatype MessageType = CHAT | JOIN | LEAVE | TYPING | SYSTEM

fun MessageType_value :: "MessageType \<Rightarrow> string" where
  "MessageType_value CHAT = ''chat''"
| "MessageType_value JOIN = ''join''"
| "MessageType_value LEAVE = ''leave''"
| "MessageType_value TYPING = ''typing''"
| "MessageType_value SYSTEM = ''system''"

text \<open>A naive \<^verbatim>\<open>datetime\<close>, as \<^verbatim>\<open>datetime.utcnow()\<close> returns it.\<close>

record datetime =
  dt_year :: nat
  dt_month :: nat
  dt_day :: nat
  dt_hour :: nat
  dt_minute :: nat
  dt_second :: nat
  dt_microsecond :: nat

record Message =
  msg_user_id :: string
  msg_username :: string
  msg_room_id :: string
  msg_content :: string
  msg_message_type :: MessageType
  msg_timestamp :: datetime

record User =
  usr_object :: nat
  usr_id :: string
  usr_username :: string
  usr_current_room :: "string option"

subsection \<open>The wire form of a message\<close>

text \<open>
  \<^verbatim>\<open>Message.Config.json_encoders\<close> writes a \<^verbatim>\<open>datetime\<close> with \<^verbatim>\<open>isoformat()\<close>:
  \<^verbatim>\<open>YYYY-MM-DDTHH:MM:SS\<close>, followed by \<^verbatim>\<open>.ffffff\<close> when the microsecond is not zero.
\<close>

definition digit_char :: "nat \<Rightarrow> char" where
  "digit_char n = ''0123456789'' ! (n mod 10)"

text \<open>\<open>zero_pad w n\<close> is \<^verbatim>\<open>"%0wd" % n\<close> for \<open>n < 10 ^ w\<close>: the last \<open>w\<close> decimal digits.\<close>

fun zero_pad :: "nat \<Rightarrow> nat \<Rightarrow> string" where
  "zero_pad 0 n = []"
| "zero_pad (Suc w) n = zero_pad w (n div 10) @ [digit_char (n mod 10)]"

definition isoformat :: "datetime \<Rightarrow> string" where
  "isoformat v =
     zero_pad 4 (dt_year v) @ ''-'' @ zero_pad 2 (dt_month v) @ ''-'' @ zero_pad 2 (dt_day v)
     @ ''T'' @ zero_pad 2 (dt_hour v) @ '':'' @ zero_pad 2 (dt_minute v) @ '':''
     @ zero_pad 2 (dt_second v)
     @ (if dt_microsecond v = 0 then [] else ''.'' @ zero_pad 6 (dt_microsecond v))"

text \<open>
  \<^verbatim>\<open>model_dump_json()\<close> writes the fields in the order of their declaration, without
  white space, each value as a JSON string: the quotation mark, the backslash and the
  control characters are escaped, every other character stands for itself.
\<close>

definition quote_char :: char where
  "quote_char = CHR 0x22"

definition backslash :: char where
  "backslash = CHR 0x5C"

definition hex_char :: "nat \<Rightarrow> char" where
  "hex_char n = ''0123456789abcdef'' ! (n mod 16)"

definition json_escape :: "char \<Rightarrow> string" where
  "json_escape c =
     (if c = quote_char then [backslash, quote_char]
      else if c = backslash then [backslash, backslash]
      else if c = CHR 0x08 then [backslash, CHR ''b'']
      else if c = CHR 0x0C then [backslash, CHR ''f'']
      else if c = CHR 0x0A then [backslash, CHR ''n'']
      else if c = CHR 0x0D then [backslash, CHR ''r'']
      else if c = CHR 0x09 then [backslash, CHR ''t'']
      else if of_char c < (32::nat)
      then [backslash, CHR ''u'', CHR ''0'', CHR ''0'',
            hex_char (of_char c div 16), hex_char (of_char c mod 16)]
      else [c])"

definition json_string :: "string \<Rightarrow> string" where
  "json_string s = quote_char # concat (map json_escape s) @ [quote_char]"

definition json_field :: "string \<Rightarrow> string \<Rightarrow> string" where
  "json_field name v = json_string name @ '':'' @ json_string v"

definition model_dump_json :: "Message \<Rightarrow> string" where
  "model_dump_json m =
     ''{'' @ json_field ''user_id'' (msg_user_id m)
     @ '','' @ json_field ''username'' (msg_username m)
     @ '','' @ json_field ''room_id'' (msg_room_id m)
     @ '','' @ json_field ''content'' (msg_content m)
     @ '','' @ json_field ''message_type'' (MessageType_value (msg_message_type m))
     @ '','' @ json_field ''timestamp'' (isoformat (msg_timestamp m))
     @ ''}''"

section \<open>The connection registry (connection_manager.py)\<close>

text \<open>
  A websocket is an opaque handle. A Python \<^verbatim>\<open>set\<close> is a list without duplicates:
  \<open>set_add\<close> is \<^verbatim>\<open>set.add\<close>, \<open>set_discard\<close> is \<^verbatim>\<open>set.discard\<close>, and the order of the
  list is the order a \<^verbatim>\<open>for\<close> loop visits the set in. The source fixes no order. A
  theorem about a given registry holds for every order, since it holds for every list;
  the registries that \<open>run\<close> builds keep their sets in the order of insertion, and what
  is proved of them speaks of the elements only.

  \<^verbatim>\<open>user_sessions\<close> maps a websocket to a \<^verbatim>\<open>User\<close> object, and one object may be the
  session of several websockets. \<open>assign user sessions\<close> is what the dictionary shows
  once the object of \<open>user\<close> has the fields of \<open>user\<close>: every session that holds this
  object shows them.
\<close>

type_synonym websocket = nat

definition set_add :: "'a \<Rightarrow> 'a list \<Rightarrow> 'a list" where
  "set_add x xs = (if x \<in> set xs then xs else xs @ [x])"

definition set_discard :: "'a \<Rightarrow> 'a list \<Rightarrow> 'a list" where
  "set_discard x xs = removeAll x xs"

record ConnectionManager =
  active_connections :: "string \<rightharpoonup> websocket list"
  user_sessions :: "websocket \<rightharpoonup> User"
  room_members :: "string \<rightharpoonup> string list"

definition assign :: "User \<Rightarrow> (websocket \<rightharpoonup> User) \<Rightarrow> (websocket \<rightharpoonup> User)" where
  "assign user sessions =
     (\<lambda>w. case sessions w of
            None \<Rightarrow> None
          | Some u \<Rightarrow> Some (if usr_object u = usr_object user then user else u))"

text \<open>\<^verbatim>\<open>ConnectionManager.__init__\<close>: three empty dictionaries.\<close>

definition init_manager :: ConnectionManager where
  "init_manager =
     \<lparr>active_connections = Map.empty, user_sessions = Map.empty, room_members = Map.empty\<rparr>"

text \<open>
  What a call does beyond changing the state of the program is a list of events: the
  calls on a websocket, the calls on the broker and the log records. \<open>Accept c\<close> is a
  call of \<^verbatim>\<open>c.accept()\<close> that returned, \<open>SendText c s\<close> a call of \<^verbatim>\<open>c.send_text(s)\<close> that returned, so that \<open>c\<close> was given
  \<open>s\<close>, and \<open>SendTextRaised c s\<close> one that raised; \<open>Publish ch s\<close> and \<open>Subscribe ch\<close> are
  calls on the broker that returned; \<open>LogException p e\<close> is a log record at the level
  of an error whose text is \<open>p\<close> followed by what the exception \<open>e\<close> prints.

  A call ends by returning or by raising, and the registry it leaves behind is part of
  the result in both cases, since the dictionaries are changed in place. \<open>Failure t\<close>
  stands for any \<^verbatim>\<open>Exception\<close> that the model does not raise itself and that the
  transport, the broker or a library may raise. \<open>RuntimeError\<close> is what a \<^verbatim>\<open>for\<close> loop
  over a set raises when the set has changed its size since the loop began.
  \<open>NotModelled\<close> is not an exception: it marks an input on which the model does not say
  what the interpreter or a library does.
\<close>

datatype error =
    KeyError | IndexError | RuntimeError | AcceptFailed | JSONDecodeError | ValidationError
  | NotModelled | Failure string

datatype outcome = Returns | Raises error

datatype event =
    Accept websocket
  | SendText websocket string
  | SendTextRaised websocket string
  | LogInfo string
  | LogWarning string
  | LogError string
  | LogException string error
  | LogDebug string
  | Close websocket nat string
  | Publish string string
  | Subscribe string

text \<open>How an f-string prints an \<^verbatim>\<open>Optional[str]\<close>.\<close>

definition fmt_room :: "string option \<Rightarrow> string" where
  "fmt_room r = (case r of None \<Rightarrow> ''None'' | Some room_id \<Rightarrow> room_id)"

text \<open>
  \<^verbatim>\<open>connect\<close>. \<open>accept_ok\<close> says whether \<^verbatim>\<open>await websocket.accept()\<close> returns; when
  it raises, nothing has been changed yet. \<open>user\<close> is the object the caller passes, with
  the fields it has at the call. Line 52 writes the room id into that object, so every
  session that holds the object names the new room from then on, and line 53 makes the
  object the session of the websocket.
\<close>

definition connect ::
  "bool \<Rightarrow> websocket \<Rightarrow> User \<Rightarrow> string \<Rightarrow> ConnectionManager
    \<Rightarrow> outcome \<times> ConnectionManager \<times> event list" where
  "connect accept_ok websocket user room_id cm =
     (if \<not> accept_ok then (Raises AcceptFailed, cm, [])
      else
        let conns = (case active_connections cm room_id of None \<Rightarrow> [] | Some c \<Rightarrow> c);
            members = (if active_connections cm room_id = None then Some []
                       else room_members cm room_id)
        in case members of
             None \<Rightarrow>
               (Raises KeyError,
                cm\<lparr>active_connections :=
                     (active_connections cm)(room_id \<mapsto> set_add websocket conns)\<rparr>,
                [Accept websocket])
           | Some m \<Rightarrow>
               (Returns,
                cm\<lparr>active_connections :=
                     (active_connections cm)(room_id \<mapsto> set_add websocket conns),
                   room_members := (room_members cm)(room_id \<mapsto> set_add (usr_id user) m),
                   user_sessions :=
                     (assign (user\<lparr>usr_current_room := Some room_id\<rparr>) (user_sessions cm))
                       (websocket \<mapsto> user\<lparr>usr_current_room := Some room_id\<rparr>)\<rparr>,
                [Accept websocket,
                 LogInfo (''User '' @ usr_username user @ '' connected to room '' @ room_id)]))"

text \<open>
  \<^verbatim>\<open>disconnect\<close>, lines 70 to 78 first: the room cleanup. The test
  \<^verbatim>\<open>if room_id and room_id in self.active_connections\<close> is false for \<^verbatim>\<open>None\<close>, for
  the empty string and for a room without a connection set.
  \<^verbatim>\<open>self.room_members[room_id]\<close> raises \<^verbatim>\<open>KeyError\<close> when the room has no member set;
  the websocket has left the connection set by then.
\<close>

definition room_cleanup ::
  "websocket \<Rightarrow> User \<Rightarrow> ConnectionManager \<Rightarrow> outcome \<times> ConnectionManager" where
  "room_cleanup websocket user cm =
     (case usr_current_room user of
        None \<Rightarrow> (Returns, cm)
      | Some room_id \<Rightarrow>
          (case (if room_id = [] then None else active_connections cm room_id) of
             None \<Rightarrow> (Returns, cm)
           | Some conns \<Rightarrow>
               let conns' = set_discard websocket conns;
                   active' = (active_connections cm)(room_id \<mapsto> conns')
               in (case room_members cm room_id of
                     None \<Rightarrow> (Raises KeyError, cm\<lparr>active_connections := active'\<rparr>)
                   | Some m \<Rightarrow>
                       let members' = (room_members cm)(room_id \<mapsto> set_discard (usr_id user) m)
                       in if conns' = []
                          then (Returns, cm\<lparr>active_connections := active'(room_id := None),
                                            room_members := members'(room_id := None)\<rparr>)
                          else (Returns, cm\<lparr>active_connections := active',
                                            room_members := members'\<rparr>))))"

text \<open>
  \<^verbatim>\<open>disconnect\<close>: nothing happens for a websocket without a session; otherwise the
  room cleanup runs, and the session is deleted after it (line 81), so not at all when
  the cleanup raises.
\<close>

definition disconnect ::
  "websocket \<Rightarrow> ConnectionManager \<Rightarrow> outcome \<times> ConnectionManager \<times> event list" where
  "disconnect websocket cm =
     (case user_sessions cm websocket of
        None \<Rightarrow> (Returns, cm, [])
      | Some user \<Rightarrow>
          (case room_cleanup websocket user cm of
             (Raises e, cm') \<Rightarrow> (Raises e, cm', [])
           | (Returns, cm') \<Rightarrow>
               (Returns,
                cm'\<lparr>user_sessions := (user_sessions cm')(websocket := None)\<rparr>,
                [LogInfo (''User '' @ usr_username user @ '' disconnected from room ''
                          @ fmt_room (usr_current_room user))])))"

text \<open>
  The second loop of \<^verbatim>\<open>broadcast_to_room\<close> (lines 110 and 111), which stops at the
  first \<^verbatim>\<open>disconnect\<close> that raises.
\<close>

fun disconnect_each ::
  "websocket list \<Rightarrow> ConnectionManager \<Rightarrow> outcome \<times> ConnectionManager \<times> event list" where
  "disconnect_each [] cm = (Returns, cm, [])"
| "disconnect_each (connection # rest) cm =
     (case disconnect connection cm of
        (Raises e, cm', evs) \<Rightarrow> (Raises e, cm', evs)
      | (Returns, cm', evs) \<Rightarrow>
          (case disconnect_each rest cm' of (r, cm'', evs') \<Rightarrow> (r, cm'', evs @ evs')))"

text \<open>
  While \<^verbatim>\<open>broadcast_to_room\<close> awaits a send, the event loop runs other tasks, and the
  tasks of the connections call \<^verbatim>\<open>connect\<close> and \<^verbatim>\<open>disconnect\<close> on the same registry
  (main.py, lines 174, 208 and 224). \<open>TaskConnect ok w u r\<close> is such a call of
  \<^verbatim>\<open>connect(w, u, r)\<close> and \<open>TaskDisconnect w\<close> one of \<^verbatim>\<open>disconnect(w)\<close>; the events of
  these calls belong to their tasks and are not listed. \<open>task_run ts cm\<close> is the
  registry after the calls \<open>ts\<close>, in order.

  The first loop of \<^verbatim>\<open>broadcast_to_room\<close> walks the set object that is the room's entry
  in \<^verbatim>\<open>active_connections\<close> when the loop begins. \<open>meanwhile ts room_id cm\<close> runs the
  calls \<open>ts\<close> and says what they did to that object: it is \<open>Unchanged\<close>; or it was
  \<open>Changed\<close> and is still the entry of the room; or it is \<open>Gone\<close>, because a
  \<^verbatim>\<open>disconnect\<close> emptied it and deleted the entry (a later \<^verbatim>\<open>connect\<close> makes a new set
  for the room).
\<close>

datatype task_call = TaskConnect bool websocket User string | TaskDisconnect websocket

fun task_perform :: "task_call \<Rightarrow> ConnectionManager \<Rightarrow> ConnectionManager" where
  "task_perform (TaskConnect ok w u r) cm = fst (snd (connect ok w u r cm))"
| "task_perform (TaskDisconnect w) cm = fst (snd (disconnect w cm))"

fun task_run :: "task_call list \<Rightarrow> ConnectionManager \<Rightarrow> ConnectionManager" where
  "task_run [] cm = cm"
| "task_run (t # ts) cm = task_run ts (task_perform t cm)"

datatype walked = Unchanged | Changed | Gone

fun meanwhile :: "task_call list \<Rightarrow> string \<Rightarrow> ConnectionManager \<Rightarrow> walked \<times> ConnectionManager" where
  "meanwhile [] room_id cm = (Unchanged, cm)"
| "meanwhile (t # ts) room_id cm =
     (if active_connections (task_perform t cm) room_id = None
      then (Gone, task_run ts (task_perform t cm))
      else
        (case meanwhile ts room_id (task_perform t cm) of
           (Unchanged, cm') \<Rightarrow>
             (if active_connections (task_perform t cm) room_id = active_connections cm room_id
              then Unchanged else Changed,
              cm')
         | (w, cm') \<Rightarrow> (w, cm')))"

text \<open>
  The first loop of \<^verbatim>\<open>broadcast_to_room\<close> (lines 102 to 107). The transport decides
  whether a send returns: \<open>send_text c s\<close> is \<open>None\<close> when \<^verbatim>\<open>await c.send_text(s)\<close>
  returns and \<open>Some e\<close> when it raises the \<^verbatim>\<open>Exception\<close> \<open>e\<close>. \<open>others\<close> says what the
  other tasks do meanwhile: its first element holds their calls during the first send
  that is awaited, its second those during the second, and so on; past its end no other
  task runs.

  The \<^verbatim>\<open>for\<close> statement walks the set \<^verbatim>\<open>self.active_connections[room_id]\<close> itself, not
  a copy. Before it takes an element, and before it ends, it compares the size of the
  set with the size \<open>n\<close> the set had when the loop began, and raises \<^verbatim>\<open>RuntimeError\<close>
  when they differ. The \<^verbatim>\<open>for\<close> statement stands outside the \<^verbatim>\<open>try\<close>, so this exception
  leaves \<^verbatim>\<open>broadcast_to_room\<close>: the connections not yet visited are not tried and the
  second loop does not run. \<open>remaining\<close> holds the connections not yet visited and
  \<open>set_is\<close> says what the other tasks did to the set during the send before. A set that
  is gone is empty, and a loop that has awaited a send began on a set that was not. A
  set that was changed and has its old size (a connection left and another came during
  one send) is walked in an order that the interpreter does not specify; the model stops
  there with \<open>NotModelled\<close>.
\<close>

fun send_sweep ::
  "(websocket \<Rightarrow> string \<Rightarrow> error option) \<Rightarrow> task_call list list \<Rightarrow> string \<Rightarrow> string \<Rightarrow> nat
    \<Rightarrow> walked \<Rightarrow> websocket list \<Rightarrow> websocket list \<Rightarrow> ConnectionManager
    \<Rightarrow> outcome \<times> websocket list \<times> ConnectionManager \<times> event list" where
  "send_sweep send_text others message_json room_id n Gone remaining disconnected cm =
     (Raises RuntimeError, disconnected, cm, [])"
| "send_sweep send_text others message_json room_id n Changed remaining disconnected cm =
     (if map_option length (active_connections cm room_id) = Some n
      then (Raises NotModelled, disconnected, cm, [])
      else (Raises RuntimeError, disconnected, cm, []))"
| "send_sweep send_text others message_json room_id n Unchanged [] disconnected cm =
     (Returns, disconnected, cm, [])"
| "send_sweep send_text others message_json room_id n Unchanged (connection # rest)
       disconnected cm =
     (case meanwhile (concat (take 1 others)) room_id cm of
        (set_is, cm') \<Rightarrow>
          (case send_text connection message_json of
             None \<Rightarrow>
               (case send_sweep send_text (drop 1 others) message_json room_id n set_is rest
                       disconnected cm' of
                  (r, d, cm'', evs) \<Rightarrow> (r, d, cm'', SendText connection message_json # evs))
           | Some e \<Rightarrow>
               (case send_sweep send_text (drop 1 others) message_json room_id n set_is rest
                       (set_add connection disconnected) cm' of
                  (r, d, cm'', evs) \<Rightarrow>
                    (r, d, cm'',
                     SendTextRaised connection message_json
                     # LogException ''Error sending message: '' e # evs))))"

text \<open>
  \<^verbatim>\<open>broadcast_to_room\<close>: the warning for a room without a connection set, the first
  loop, and the second loop when the first has not raised.
\<close>

definition broadcast_to_room ::
  "(websocket \<Rightarrow> string \<Rightarrow> error option) \<Rightarrow> task_call list list \<Rightarrow> string \<Rightarrow> Message
    \<Rightarrow> ConnectionManager \<Rightarrow> outcome \<times> ConnectionManager \<times> event list" where
  "broadcast_to_room send_text others room_id message cm =
     (case active_connections cm room_id of
        None \<Rightarrow>
          (Returns, cm,
           [LogWarning (''Attempted to broadcast to non-existent room: '' @ room_id)])
      | Some conns \<Rightarrow>
          (case send_sweep send_text others (model_dump_json message) room_id (length conns)
                  Unchanged conns [] cm of
             (Raises e, disconnected, cm', evs) \<Rightarrow> (Raises e, cm', evs)
           | (Returns, disconnected, cm', evs) \<Rightarrow>
               (case disconnect_each disconnected cm' of
                  (r, cm'', evs') \<Rightarrow> (r, cm'', evs @ evs'))))"

text \<open>\<^verbatim>\<open>get_room_member_count\<close> and \<^verbatim>\<open>get_user_info\<close>.\<close>

definition get_room_member_count :: "string \<Rightarrow> ConnectionManager \<Rightarrow> nat" where
  "get_room_member_count room_id cm =
     length (case room_members cm room_id of None \<Rightarrow> [] | Some m \<Rightarrow> m)"

definition get_user_info :: "websocket \<Rightarrow> ConnectionManager \<Rightarrow> User option" where
  "get_user_info websocket cm = user_sessions cm websocket"

text \<open>
  A history of the registry: the calls made on it, in the order they run. A call that
  raises leaves the registry as it was at the raise, and the next call runs on that.
  \<open>Connect ok w u r\<close> is \<^verbatim>\<open>connect(w, u, r)\<close> where \<open>ok\<close> says whether the transport
  accepts, and \<open>Broadcast st others r m\<close> is \<^verbatim>\<open>broadcast_to_room(r, m)\<close> while the
  transport answers the sends as \<open>st\<close> says and the other tasks do what \<open>others\<close> says.
\<close>

datatype call =
    Connect bool websocket User string
  | Disconnect websocket
  | Broadcast "websocket \<Rightarrow> string \<Rightarrow> error option" "task_call list list" string Message

fun perform :: "call \<Rightarrow> ConnectionManager \<Rightarrow> outcome \<times> ConnectionManager \<times> event list" where
  "perform (Connect ok w u r) cm = connect ok w u r cm"
| "perform (Disconnect w) cm = disconnect w cm"
| "perform (Broadcast st others r m) cm = broadcast_to_room st others r m cm"

fun run :: "call list \<Rightarrow> ConnectionManager \<Rightarrow> ConnectionManager" where
  "run [] cm = cm"
| "run (c # cs) cm = run cs (fst (snd (perform c cm)))"

text \<open>
  What the connects of a history are given, those of the other tasks during a broadcast
  included: the handles, the \<^verbatim>\<open>User\<close> objects, the user ids and the room ids.
\<close>

fun task_connects :: "task_call list \<Rightarrow> (websocket \<times> User \<times> string) list" where
  "task_connects [] = []"
| "task_connects (TaskConnect ok w u r # ts) = (w, u, r) # task_connects ts"
| "task_connects (TaskDisconnect w # ts) = task_connects ts"

fun connects :: "call list \<Rightarrow> (websocket \<times> User \<times> string) list" where
  "connects [] = []"
| "connects (Connect ok w u r # cs) = (w, u, r) # connects cs"
| "connects (Disconnect w # cs) = connects cs"
| "connects (Broadcast st others r m # cs) = task_connects (concat others) @ connects cs"

definition connect_handles :: "call list \<Rightarrow> websocket list" where
  "connect_handles cs = map fst (connects cs)"

definition connect_objects :: "call list \<Rightarrow> nat list" where
  "connect_objects cs = map (\<lambda>(w, u, r). usr_object u) (connects cs)"

definition connect_user_ids :: "call list \<Rightarrow> string list" where
  "connect_user_ids cs = map (\<lambda>(w, u, r). usr_id u) (connects cs)"

definition connect_rooms :: "call list \<Rightarrow> string list" where
  "connect_rooms cs = map (\<lambda>(w, u, r). r) (connects cs)"

text \<open>The connections a room holds; none when the room has no entry.\<close>

definition room_connections :: "ConnectionManager \<Rightarrow> string \<Rightarrow> websocket set" where
  "room_connections cm r = (case active_connections cm r of None \<Rightarrow> {} | Some c \<Rightarrow> set c)"

text \<open>The websockets that are in the connection set of some room.\<close>

definition seats :: "ConnectionManager \<Rightarrow> websocket set" where
  "seats cm = {w. \<exists>r. w \<in> room_connections cm r}"

text \<open>
  Properties of a registry. It is \<open>consistent\<close> when both room dictionaries have the
  same keys, no connection set is empty and the lists are sets. Its sessions are
  \<open>seated\<close> when every websocket with a session is in some connection set, and its
  connections have \<open>one_room\<close> when no websocket is in the connection sets of two rooms.
  Its connections are \<open>placed\<close> when every session stands in the connection set of the
  room it names, a room with a name that is not empty, and every connection in a set has
  a session that names that room.
\<close>

definition consistent :: "ConnectionManager \<Rightarrow> bool" where
  "consistent cm \<longleftrightarrow>
     dom (active_connections cm) = dom (room_members cm)
     \<and> (\<forall>r c. active_connections cm r = Some c \<longrightarrow> c \<noteq> [] \<and> distinct c)
     \<and> (\<forall>r m. room_members cm r = Some m \<longrightarrow> distinct m)"

definition seated :: "ConnectionManager \<Rightarrow> bool" where
  "seated cm \<longleftrightarrow> dom (user_sessions cm) \<subseteq> seats cm"

definition one_room :: "ConnectionManager \<Rightarrow> bool" where
  "one_room cm \<longleftrightarrow>
     (\<forall>w r r'. w \<in> room_connections cm r \<and> w \<in> room_connections cm r' \<longrightarrow> r = r')"

definition placed :: "ConnectionManager \<Rightarrow> bool" where
  "placed cm \<longleftrightarrow>
     (\<forall>w u. user_sessions cm w = Some u \<longrightarrow>
        (\<exists>r c. usr_current_room u = Some r \<and> r \<noteq> [] \<and> active_connections cm r = Some c
               \<and> w \<in> set c))
     \<and> (\<forall>r c w. active_connections cm r = Some c \<and> w \<in> set c \<longrightarrow>
        (\<exists>u. user_sessions cm w = Some u \<and> usr_current_room u = Some r))"

section \<open>The broker relay (redis_manager.py)\<close>

text \<open>
  The Redis client and the \<^verbatim>\<open>PubSub\<close> object belong to the library. Of the client the
  model keeps the URL it was made for, of the \<^verbatim>\<open>PubSub\<close> object the channels it is
  subscribed to. \<open>listener_task\<close> is \<open>Some done\<close> once a task has been created.
  The one handler that the program registers works on the connection registry, so a
  handler is a function on registries; it may raise.
\<close>

record PubSub =
  channels :: "string list"

type_synonym handler =
  "string \<Rightarrow> Message \<Rightarrow> ConnectionManager \<Rightarrow> outcome \<times> ConnectionManager \<times> event list"

record RedisManager =
  redis_url :: string
  redis_client :: "string option"
  pubsub :: "PubSub option"
  listener_task :: "bool option"
  message_handler :: "handler option"

text \<open>\<^verbatim>\<open>RedisManager.__init__\<close>.\<close>

definition RedisManager_init :: "string \<Rightarrow> RedisManager" where
  "RedisManager_init url =
     \<lparr>redis_url = url, redis_client = None, pubsub = None, listener_task = None,
      message_handler = None\<rparr>"

text \<open>
  \<^verbatim>\<open>RedisManager.connect\<close>. The library decides how the two calls in the \<^verbatim>\<open>try\<close> block
  end; the exception is logged and raised again.
\<close>

datatype connecting = Connects | FromUrlRaises error | PubsubRaises error

definition redis_connect ::
  "connecting \<Rightarrow> RedisManager \<Rightarrow> outcome \<times> RedisManager \<times> event list" where
  "redis_connect how rm =
     (case how of
        FromUrlRaises e \<Rightarrow> (Raises e, rm, [LogException ''Failed to connect to Redis: '' e])
      | PubsubRaises e \<Rightarrow>
          (Raises e, rm\<lparr>redis_client := Some (redis_url rm)\<rparr>,
           [LogException ''Failed to connect to Redis: '' e])
      | Connects \<Rightarrow>
          (Returns,
           rm\<lparr>redis_client := Some (redis_url rm), pubsub := Some \<lparr>channels = []\<rparr>\<rparr>,
           [LogInfo ''Connected to Redis successfully'']))"

text \<open>
  \<^verbatim>\<open>publish_message\<close>. \<open>publish ch s\<close> is \<open>None\<close> when
  \<^verbatim>\<open>await self.redis_client.publish(ch, s)\<close> returns and \<open>Some e\<close> when it raises \<open>e\<close>.
  Every \<^verbatim>\<open>Exception\<close> is caught, so the call always returns.
\<close>

definition publish_message ::
  "(string \<Rightarrow> string \<Rightarrow> error option) \<Rightarrow> string \<Rightarrow> Message \<Rightarrow> RedisManager
    \<Rightarrow> outcome \<times> RedisManager \<times> event list" where
  "publish_message publish room_id message rm =
     (case redis_client rm of
        None \<Rightarrow> (Returns, rm, [LogError ''Redis client not connected''])
      | Some client \<Rightarrow>
          let channel = ''room:'' @ room_id;
              message_json = model_dump_json message
          in (case publish channel message_json of
                None \<Rightarrow>
                  (Returns, rm,
                   [Publish channel message_json, LogDebug (''Published message to '' @ channel)])
              | Some e \<Rightarrow> (Returns, rm, [LogException ''Error publishing message: '' e])))"

text \<open>\<^verbatim>\<open>subscribe_to_room\<close>, with \<open>subscribe ch\<close> for \<^verbatim>\<open>await self.pubsub.subscribe(ch)\<close>.\<close>

definition subscribe_to_room ::
  "(string \<Rightarrow> error option) \<Rightarrow> string \<Rightarrow> RedisManager
    \<Rightarrow> outcome \<times> RedisManager \<times> event list" where
  "subscribe_to_room subscribe room_id rm =
     (case pubsub rm of
        None \<Rightarrow> (Returns, rm, [LogError ''PubSub not initialized''])
      | Some ps \<Rightarrow>
          let channel = ''room:'' @ room_id
          in (case subscribe channel of
                None \<Rightarrow>
                  (Returns,
                   rm\<lparr>pubsub := Some (ps\<lparr>channels := set_add channel (channels ps)\<rparr>)\<rparr>,
                   [Subscribe channel, LogInfo (''Subscribed to '' @ channel)])
              | Some e \<Rightarrow> (Returns, rm, [LogException ''Error subscribing to room: '' e])))"

text \<open>\<^verbatim>\<open>set_message_handler\<close>.\<close>

definition set_message_handler :: "handler \<Rightarrow> RedisManager \<Rightarrow> RedisManager" where
  "set_message_handler h rm = rm\<lparr>message_handler := Some h\<rparr>"

text \<open>
  \<^verbatim>\<open>start_listening\<close>. An event of the broker is a dictionary with the keys
  \<^verbatim>\<open>type\<close>, \<^verbatim>\<open>channel\<close> and \<^verbatim>\<open>data\<close>. What \<^verbatim>\<open>self.pubsub.listen()\<close> does next is an
  item of a stream: it yields an event, it raises, or the task is cancelled while it
  waits. The model runs the loop on a finite stream; when the stream is used up the loop
  is \<open>Awaiting\<close> the next item, otherwise it has \<open>Ended\<close>.

  \<open>after_colon\<close> is \<^verbatim>\<open>channel.split(":", 1)[1]\<close>, which raises \<^verbatim>\<open>IndexError\<close> for a
  channel without a colon. \<open>decode\<close> stands for \<^verbatim>\<open>Message(**json.loads(data))\<close>: the
  message, or the exception that the JSON parser or the validation raises.
\<close>

record broker_event =
  ev_type :: string
  ev_channel :: string
  ev_data :: string

datatype stream_item = Event broker_event | StreamRaises error | Cancelled

datatype listener = Awaiting | Ended

definition after_colon :: "string \<Rightarrow> string option" where
  "after_colon channel =
     (case dropWhile (\<lambda>c. c \<noteq> CHR '':'') channel of [] \<Rightarrow> None | c # rest \<Rightarrow> Some rest)"

text \<open>
  The body of the inner \<^verbatim>\<open>try\<close> (lines 141 to 155) for one data message: every
  \<^verbatim>\<open>Exception\<close> in it is logged, and the registry is left as the handler left it.
\<close>

definition process_message ::
  "handler option \<Rightarrow> (string \<Rightarrow> error + Message) \<Rightarrow> broker_event \<Rightarrow> ConnectionManager
    \<Rightarrow> ConnectionManager \<times> event list" where
  "process_message h decode ev cm =
     (case after_colon (ev_channel ev) of
        None \<Rightarrow> (cm, [LogException ''Error processing message: '' IndexError])
      | Some room_id \<Rightarrow>
          (case decode (ev_data ev) of
             Inl e \<Rightarrow> (cm, [LogException ''Error processing message: '' e])
           | Inr msg \<Rightarrow>
               (case h of
                  None \<Rightarrow> (cm, [])
                | Some handle \<Rightarrow>
                    (case handle room_id msg cm of
                       (Returns, cm', evs) \<Rightarrow> (cm', evs)
                     | (Raises e, cm', evs) \<Rightarrow>
                         (cm', evs @ [LogException ''Error processing message: '' e])))))"

fun listen ::
  "handler option \<Rightarrow> (string \<Rightarrow> error + Message) \<Rightarrow> stream_item list \<Rightarrow> ConnectionManager
    \<Rightarrow> listener \<times> ConnectionManager \<times> event list" where
  "listen h decode [] cm = (Awaiting, cm, [])"
| "listen h decode (Event ev # rest) cm =
     (if ev_type ev = ''message''
      then (case process_message h decode ev cm of
              (cm', evs) \<Rightarrow>
                (case listen h decode rest cm' of (l, cm'', evs') \<Rightarrow> (l, cm'', evs @ evs')))
      else listen h decode rest cm)"
| "listen h decode (Cancelled # rest) cm = (Ended, cm, [LogInfo ''Redis listener cancelled''])"
| "listen h decode (StreamRaises e # rest) cm =
     (Ended, cm, [LogException ''Error in Redis listener: '' e])"

definition start_listening ::
  "(string \<Rightarrow> error + Message) \<Rightarrow> stream_item list \<Rightarrow> RedisManager \<Rightarrow> ConnectionManager
    \<Rightarrow> listener \<times> ConnectionManager \<times> event list" where
  "start_listening decode stream rm cm =
     (case pubsub rm of
        None \<Rightarrow> (Ended, cm, [LogError ''PubSub not initialized''])
      | Some ps \<Rightarrow>
          (case listen (message_handler rm) decode stream cm of
             (l, cm', evs) \<Rightarrow> (l, cm', LogInfo ''Started Redis listener'' # evs)))"

subsection \<open>Decoding a payload (lines 147 and 148)\<close>

text \<open>
  \<^verbatim>\<open>json.loads\<close>, for the JSON texts that \<^verbatim>\<open>model_dump_json\<close> can write and their
  neighbours: an object whose values are strings, with white space between the tokens
  and with every escape of a character below 128. On any other value or escape the
  result is \<open>NotModelled\<close>. A string is a list of bytes here, so a character beyond
  ASCII is the bytes of its UTF-8 form, which both directions leave as they are.
\<close>

definition is_space :: "char \<Rightarrow> bool" where
  "is_space c \<longleftrightarrow> c = CHR '' '' \<or> c = CHR 0x09 \<or> c = CHR 0x0A \<or> c = CHR 0x0D"

definition skip_ws :: "string \<Rightarrow> string" where
  "skip_ws s = dropWhile is_space s"

definition digit_value :: "char \<Rightarrow> nat option" where
  "digit_value c =
     (let n = of_char c :: nat in if 48 \<le> n \<and> n \<le> 57 then Some (n - 48) else None)"

definition hex_value :: "char \<Rightarrow> nat option" where
  "hex_value c =
     (let n = of_char c :: nat
      in if 48 \<le> n \<and> n \<le> 57 then Some (n - 48)
         else if 97 \<le> n \<and> n \<le> 102 then Some (n - 87)
         else if 65 \<le> n \<and> n \<le> 70 then Some (n - 55)
         else None)"

text \<open>The character that stands after a backslash, other than \<^verbatim>\<open>u\<close>.\<close>

definition simple_escape :: "char \<Rightarrow> char option" where
  "simple_escape e =
     (if e = quote_char then Some quote_char
      else if e = backslash then Some backslash
      else if e = CHR ''/'' then Some CHR ''/''
      else if e = CHR ''b'' then Some (CHR 0x08)
      else if e = CHR ''f'' then Some (CHR 0x0C)
      else if e = CHR ''n'' then Some (CHR 0x0A)
      else if e = CHR ''r'' then Some (CHR 0x0D)
      else if e = CHR ''t'' then Some (CHR 0x09)
      else None)"

text \<open>
  The four hexadecimal digits of a \<^verbatim>\<open>\u\<close> escape: the character, \<open>Inl NotModelled\<close> for
  a code point from 128 on, \<open>Inl JSONDecodeError\<close> when they are not four digits.
\<close>

definition unicode_escape :: "string \<Rightarrow> error + char" where
  "unicode_escape hs =
     (case map hex_value hs of
        [Some a, Some b, Some c, Some d] \<Rightarrow>
          (let n = ((a * 16 + b) * 16 + c) * 16 + d
           in if n < 128 then Inr (char_of n) else Inl NotModelled)
      | _ \<Rightarrow> Inl JSONDecodeError)"

text \<open>
  A string literal from behind its opening quotation mark: the string and what follows
  the closing quotation mark. A control character inside a literal is an error.
\<close>

definition prepend :: "char \<Rightarrow> error + string \<times> string \<Rightarrow> error + string \<times> string" where
  "prepend c r = (case r of Inl e \<Rightarrow> Inl e | Inr (s, rest) \<Rightarrow> Inr (c # s, rest))"

fun json_string_body :: "string \<Rightarrow> error + string \<times> string" where
  "json_string_body [] = Inl JSONDecodeError"
| "json_string_body [c] =
     (if c = quote_char then Inr ([], []) else Inl JSONDecodeError)"
| "json_string_body (c # e # cs) =
     (if c = quote_char then Inr ([], e # cs)
      else if c = backslash
      then (if e = CHR ''u''
            then (case unicode_escape (take 4 cs) of
                    Inl x \<Rightarrow> Inl x
                  | Inr u \<Rightarrow> prepend u (json_string_body (drop 4 cs)))
            else (case simple_escape e of
                    None \<Rightarrow> Inl JSONDecodeError
                  | Some x \<Rightarrow> prepend x (json_string_body cs)))
      else if of_char c < (32::nat) then Inl JSONDecodeError
      else prepend c (json_string_body (e # cs)))"

text \<open>One member of an object, \<^verbatim>\<open>"key": "value"\<close>, and what follows it.\<close>

definition json_literal :: "string \<Rightarrow> error + string \<times> string" where
  "json_literal s =
     (case s of
        [] \<Rightarrow> Inl JSONDecodeError
      | q # body \<Rightarrow> if q = quote_char then json_string_body body else Inl NotModelled)"

definition json_member :: "string \<Rightarrow> error + (string \<times> string) \<times> string" where
  "json_member s =
     (case s of
        [] \<Rightarrow> Inl JSONDecodeError
      | q # body \<Rightarrow>
          if q \<noteq> quote_char then Inl JSONDecodeError
          else
            (case json_string_body body of
               Inl e \<Rightarrow> Inl e
             | Inr (k, s1) \<Rightarrow>
                 (case skip_ws s1 of
                    [] \<Rightarrow> Inl JSONDecodeError
                  | c # s2 \<Rightarrow>
                      if c \<noteq> CHR '':'' then Inl JSONDecodeError
                      else
                        (case json_literal (skip_ws s2) of
                           Inl e \<Rightarrow> Inl e
                         | Inr (v, s3) \<Rightarrow> Inr ((k, v), skip_ws s3)))))"

text \<open>
  The members of an object up to its closing brace, after which only white space may
  follow. Every member uses up at least one character, so the length of the text is
  fuel enough.
\<close>

fun json_members :: "nat \<Rightarrow> string \<Rightarrow> error + (string \<times> string) list" where
  "json_members 0 s = Inl JSONDecodeError"
| "json_members (Suc fuel) s =
     (case json_member s of
        Inl e \<Rightarrow> Inl e
      | Inr (kv, rest) \<Rightarrow>
          (case rest of
             [] \<Rightarrow> Inl JSONDecodeError
           | c # rest' \<Rightarrow>
               if c = CHR ''}'' then (if skip_ws rest' = [] then Inr [kv] else Inl JSONDecodeError)
               else if c = CHR '',''
               then (case json_members fuel (skip_ws rest') of
                       Inl e \<Rightarrow> Inl e
                     | Inr kvs \<Rightarrow> Inr (kv # kvs))
               else Inl JSONDecodeError))"

definition json_loads :: "string \<Rightarrow> error + (string \<times> string) list" where
  "json_loads s =
     (case skip_ws s of
        [] \<Rightarrow> Inl JSONDecodeError
      | c # s1 \<Rightarrow>
          if c \<noteq> CHR ''{'' then Inl NotModelled
          else
            (case skip_ws s1 of
               [] \<Rightarrow> Inl JSONDecodeError
             | c' # s2 \<Rightarrow>
                 if c' = CHR ''}''
                 then (if skip_ws s2 = [] then Inr [] else Inl JSONDecodeError)
                 else json_members (length s) (c' # s2)))"

text \<open>
  \<^verbatim>\<open>Message(**message_data)\<close>. The four string fields are required; \<^verbatim>\<open>message_type\<close>
  must be the value of a member of \<^verbatim>\<open>MessageType\<close> and is \<^verbatim>\<open>CHAT\<close> when absent;
  \<^verbatim>\<open>timestamp\<close> is read back from its ISO form and is the time of the call when absent.
  Of the forms of a time that the validation accepts the model reads the two that
  \<^verbatim>\<open>isoformat()\<close> writes for a naive \<^verbatim>\<open>datetime\<close>; every other is \<open>NotModelled\<close>.
  When a key stands twice in the object the later value counts, and keys that are not
  fields are ignored.
\<close>

fun MessageType_of_value :: "string \<Rightarrow> MessageType option" where
  "MessageType_of_value v =
     (if v = ''chat'' then Some CHAT
      else if v = ''join'' then Some JOIN
      else if v = ''leave'' then Some LEAVE
      else if v = ''typing'' then Some TYPING
      else if v = ''system'' then Some SYSTEM
      else None)"

fun digits_value :: "nat \<Rightarrow> string \<Rightarrow> nat option" where
  "digits_value acc [] = Some acc"
| "digits_value acc (c # cs) =
     (case digit_value c of None \<Rightarrow> None | Some d \<Rightarrow> digits_value (10 * acc + d) cs)"

definition is_leap :: "nat \<Rightarrow> bool" where
  "is_leap y \<longleftrightarrow> y mod 4 = 0 \<and> (y mod 100 \<noteq> 0 \<or> y mod 400 = 0)"

definition days_in_month :: "nat \<Rightarrow> nat \<Rightarrow> nat" where
  "days_in_month y m =
     (if m = 2 then (if is_leap y then 29 else 28)
      else if m = 4 \<or> m = 6 \<or> m = 9 \<or> m = 11 then 30 else 31)"

text \<open>The values that a \<^verbatim>\<open>datetime\<close> object can hold.\<close>

definition valid_datetime :: "datetime \<Rightarrow> bool" where
  "valid_datetime v \<longleftrightarrow>
     1 \<le> dt_year v \<and> dt_year v \<le> 9999 \<and> 1 \<le> dt_month v \<and> dt_month v \<le> 12
     \<and> 1 \<le> dt_day v \<and> dt_day v \<le> days_in_month (dt_year v) (dt_month v)
     \<and> dt_hour v < 24 \<and> dt_minute v < 60 \<and> dt_second v < 60 \<and> dt_microsecond v < 1000000"

definition iso_shape :: "string \<Rightarrow> bool" where
  "iso_shape s \<longleftrightarrow>
     (length s = 19 \<or> length s = 26 \<and> s ! 19 = CHR ''.'')
     \<and> s ! 4 = CHR ''-'' \<and> s ! 7 = CHR ''-'' \<and> s ! 10 = CHR ''T''
     \<and> s ! 13 = CHR '':'' \<and> s ! 16 = CHR '':''"

definition parse_datetime :: "string \<Rightarrow> error + datetime" where
  "parse_datetime s =
     (if \<not> iso_shape s then Inl NotModelled
      else
        (case map (digits_value 0)
                [take 4 s, take 2 (drop 5 s), take 2 (drop 8 s), take 2 (drop 11 s),
                 take 2 (drop 14 s), take 2 (drop 17 s), drop 20 s] of
           [Some y, Some mo, Some d, Some h, Some mi, Some sec, Some us] \<Rightarrow>
             (let v = \<lparr>dt_year = y, dt_month = mo, dt_day = d, dt_hour = h, dt_minute = mi,
                       dt_second = sec, dt_microsecond = us\<rparr>
              in if valid_datetime v then Inr v else Inl ValidationError)
         | _ \<Rightarrow> Inl NotModelled))"

definition Message_validate :: "datetime \<Rightarrow> (string \<times> string) list \<Rightarrow> error + Message" where
  "Message_validate now message_data =
     (let field = map_of (rev message_data)
      in case (field ''user_id'', field ''username'', field ''room_id'', field ''content'') of
           (Some uid, Some uname, Some room, Some text) \<Rightarrow>
             (case (case field ''message_type'' of
                      None \<Rightarrow> Some CHAT
                    | Some v \<Rightarrow> MessageType_of_value v) of
                None \<Rightarrow> Inl ValidationError
              | Some t \<Rightarrow>
                  (case (case field ''timestamp'' of
                           None \<Rightarrow> Inr now
                         | Some v \<Rightarrow> parse_datetime v) of
                     Inl e \<Rightarrow> Inl e
                   | Inr ts \<Rightarrow>
                       Inr \<lparr>msg_user_id = uid, msg_username = uname, msg_room_id = room,
                            msg_content = text, msg_message_type = t, msg_timestamp = ts\<rparr>))
         | _ \<Rightarrow> Inl ValidationError)"

text \<open>Lines 147 and 148 together; \<open>now\<close> is the time of the call.\<close>

definition decode_message :: "datetime \<Rightarrow> string \<Rightarrow> error + Message" where
  "decode_message now s =
     (case json_loads s of Inl e \<Rightarrow> Inl e | Inr message_data \<Rightarrow> Message_validate now message_data)"

section \<open>The gateway (main.py)\<close>

text \<open>
  The state of the process: the two managers and the room metadata. The world around a
  connection answers the calls that leave the process: whether the transport accepts,
  and how the broker answers a subscription and a publication.
\<close>

record Room =
  room_ident :: string
  room_name :: string
  room_created_at :: datetime
  room_member_count :: nat

record App =
  connection_manager :: ConnectionManager
  redis_manager :: RedisManager
  rooms_db :: "string \<rightharpoonup> Room"

record world =
  accepts :: bool
  subscribes :: "string \<Rightarrow> error option"
  publishes :: "string \<Rightarrow> string \<Rightarrow> error option"

text \<open>
  What \<^verbatim>\<open>await websocket.receive_text()\<close> does next: it returns a text, it raises
  \<^verbatim>\<open>WebSocketDisconnect\<close>, or it raises another exception. A \<^verbatim>\<open>Message\<close> is stamped with
  \<^verbatim>\<open>datetime.utcnow()\<close> when it is made, so the first two carry the time of that moment.
\<close>

datatype received = Text string datetime | WebSocketDisconnect datetime | ReceiveRaises error

datatype connection_state = Rejected | Active | Closed | Crashed error

text \<open>
  The loop of \<^verbatim>\<open>websocket_endpoint\<close> with its two \<^verbatim>\<open>except\<close> clauses (lines 189 to
  224). When the list of what is received is used up the connection is still \<open>Active\<close>.
  An exception that \<^verbatim>\<open>disconnect\<close> raises inside an \<^verbatim>\<open>except\<close> clause leaves the
  function.
\<close>

fun receive_loop ::
  "world \<Rightarrow> websocket \<Rightarrow> string \<Rightarrow> string \<Rightarrow> string \<Rightarrow> received list \<Rightarrow> App
    \<Rightarrow> connection_state \<times> App \<times> event list" where
  "receive_loop w websocket user_id username room_id [] app = (Active, app, [])"
| "receive_loop w websocket user_id username room_id (Text data now # rest) app =
     (case publish_message (publishes w) room_id
             \<lparr>msg_user_id = user_id, msg_username = username, msg_room_id = room_id,
              msg_content = data, msg_message_type = CHAT, msg_timestamp = now\<rparr>
             (redis_manager app) of
        (r, rm, evs) \<Rightarrow>
          (case receive_loop w websocket user_id username room_id rest
                  (app\<lparr>redis_manager := rm\<rparr>) of
             (st, app', evs') \<Rightarrow> (st, app', evs @ evs')))"
| "receive_loop w websocket user_id username room_id (WebSocketDisconnect now # rest) app =
     (case disconnect websocket (connection_manager app) of
        (Raises e, cm, evs) \<Rightarrow> (Crashed e, app\<lparr>connection_manager := cm\<rparr>, evs)
      | (Returns, cm, evs) \<Rightarrow>
          (case publish_message (publishes w) room_id
                  \<lparr>msg_user_id = user_id, msg_username = username, msg_room_id = room_id,
                   msg_content = username @ '' left the room'', msg_message_type = LEAVE,
                   msg_timestamp = now\<rparr>
                  (redis_manager app) of
             (r, rm, evs') \<Rightarrow>
               (Closed, app\<lparr>connection_manager := cm, redis_manager := rm\<rparr>,
                evs @ evs'
                @ [LogInfo (''User '' @ username @ '' disconnected from room '' @ room_id)])))"
| "receive_loop w websocket user_id username room_id (ReceiveRaises e # rest) app =
     (case disconnect websocket (connection_manager app) of
        (Raises e', cm, evs) \<Rightarrow>
          (Crashed e', app\<lparr>connection_manager := cm\<rparr>,
           LogException ''Error in WebSocket connection: '' e # evs)
      | (Returns, cm, evs) \<Rightarrow>
          (Closed, app\<lparr>connection_manager := cm\<rparr>,
           LogException ''Error in WebSocket connection: '' e # evs))"

text \<open>
  \<^verbatim>\<open>websocket_endpoint\<close>. \<open>query_username\<close> is the \<^verbatim>\<open>username\<close> query parameter when the
  request has one, \<open>user_id\<close> the string of the fresh \<^verbatim>\<open>uuid4()\<close>, \<open>user_object\<close> the
  identity of the \<^verbatim>\<open>User\<close> object that line 162 makes, and \<open>now\<close> the time the join
  message is made. An exception that \<^verbatim>\<open>connect\<close> raises leaves the function.
\<close>

definition websocket_endpoint ::
  "world \<Rightarrow> websocket \<Rightarrow> string \<Rightarrow> string option \<Rightarrow> string \<Rightarrow> nat \<Rightarrow> datetime
    \<Rightarrow> received list \<Rightarrow> App \<Rightarrow> connection_state \<times> App \<times> event list" where
  "websocket_endpoint w websocket room_id query_username user_id user_object now inbox app =
     (let username = (case query_username of None \<Rightarrow> ''Anonymous'' | Some n \<Rightarrow> n);
          user = \<lparr>usr_object = user_object, usr_id = user_id, usr_username = username,
                  usr_current_room = Some room_id\<rparr>
      in if rooms_db app room_id = None
         then (Rejected, app, [Close websocket 1008 ''Room not found''])
         else
           (case connect (accepts w) websocket user room_id (connection_manager app) of
              (Raises e, cm, evs) \<Rightarrow> (Crashed e, app\<lparr>connection_manager := cm\<rparr>, evs)
            | (Returns, cm, evs) \<Rightarrow>
                (case subscribe_to_room (subscribes w) room_id (redis_manager app) of
                   (r1, rm1, evs1) \<Rightarrow>
                     (case publish_message (publishes w) room_id
                             \<lparr>msg_user_id = user_id, msg_username = username,
                              msg_room_id = room_id,
                              msg_content = username @ '' joined the room'',
                              msg_message_type = JOIN, msg_timestamp = now\<rparr>
                             rm1 of
                        (r2, rm2, evs2) \<Rightarrow>
                          (case receive_loop w websocket user_id username room_id inbox
                                  (app\<lparr>connection_manager := cm, redis_manager := rm2\<rparr>) of
                             (st, app', evs3) \<Rightarrow> (st, app', evs @ evs1 @ evs2 @ evs3))))))"

text \<open>
  What a list of events published, in order, and the three kinds of message that the
  gateway makes for a session.
\<close>

fun published :: "event list \<Rightarrow> (string \<times> string) list" where
  "published [] = []"
| "published (Publish ch s # evs) = (ch, s) # published evs"
| "published (e # evs) = published evs"

definition session_message ::
  "string \<Rightarrow> string \<Rightarrow> string \<Rightarrow> string \<Rightarrow> MessageType \<Rightarrow> datetime \<Rightarrow> Message" where
  "session_message user_id username room_id text kind now =
     \<lparr>msg_user_id = user_id, msg_username = username, msg_room_id = room_id,
      msg_content = text, msg_message_type = kind, msg_timestamp = now\<rparr>"

text \<open>
  The handler that \<^verbatim>\<open>lifespan\<close> registers, and the process after start-up: the broker
  connected, the handler set, the three default rooms.
\<close>

definition handle_redis_message ::
  "(websocket \<Rightarrow> string \<Rightarrow> error option) \<Rightarrow> task_call list list \<Rightarrow> handler" where
  "handle_redis_message send_text others room_id message cm =
     broadcast_to_room send_text others room_id message cm"

definition default_rooms :: "datetime \<Rightarrow> string \<rightharpoonup> Room" where
  "default_rooms now =
     [''general'' \<mapsto> \<lparr>room_ident = ''general'', room_name = ''General'',
                       room_created_at = now, room_member_count = 0\<rparr>,
      ''random'' \<mapsto> \<lparr>room_ident = ''random'', room_name = ''Random'',
                      room_created_at = now, room_member_count = 0\<rparr>,
      ''tech'' \<mapsto> \<lparr>room_ident = ''tech'', room_name = ''Tech Talk'',
                    room_created_at = now, room_member_count = 0\<rparr>]"

definition started ::
  "string \<Rightarrow> (websocket \<Rightarrow> string \<Rightarrow> error option) \<Rightarrow> task_call list list \<Rightarrow> datetime \<Rightarrow> App" where
  "started url send_text others now =
     \<lparr>connection_manager = init_manager,
      redis_manager =
        set_message_handler (handle_redis_message send_text others)
          (fst (snd (redis_connect Connects (RedisManager_init url)))),
      rooms_db = default_rooms now\<rparr>"

text \<open>
  The user ids of the sessions of a room, the user ids and the objects of all sessions,
  and a third property of a registry: it is \<open>counted\<close> when the member set of every room
  holds the user ids of the sessions of that room and no two sessions have the same user
  id.
\<close>

definition session_ids :: "ConnectionManager \<Rightarrow> string \<Rightarrow> string set" where
  "session_ids cm r =
     {i. \<exists>w u. user_sessions cm w = Some u \<and> usr_current_room u = Some r \<and> usr_id u = i}"

definition all_session_ids :: "ConnectionManager \<Rightarrow> string set" where
  "all_session_ids cm = {i. \<exists>w u. user_sessions cm w = Some u \<and> usr_id u = i}"

definition session_objects :: "ConnectionManager \<Rightarrow> nat set" where
  "session_objects cm = {k. \<exists>w u. user_sessions cm w = Some u \<and> usr_object u = k}"

definition counted :: "ConnectionManager \<Rightarrow> bool" where
  "counted cm \<longleftrightarrow>
     (\<forall>r m. room_members cm r = Some m \<longrightarrow> set m = session_ids cm r)
     \<and> (\<forall>w w' u u'. user_sessions cm w = Some u \<and> user_sessions cm w' = Some u'
            \<and> usr_id u = usr_id u' \<longrightarrow> w = w')"

subsection \<open>Values for the examples\<close>

definition alice :: User where
  "alice = \<lparr>usr_object = 1, usr_id = ''u1'', usr_username = ''alice'',
             usr_current_room = None\<rparr>"

definition alice_again :: User where
  "alice_again = \<lparr>usr_object = 4, usr_id = ''u1'', usr_username = ''alice'',
                   usr_current_room = None\<rparr>"

definition bob :: User where
  "bob = \<lparr>usr_object = 2, usr_id = ''u2'', usr_username = ''bob'', usr_current_room = None\<rparr>"

definition carol :: User where
  "carol = \<lparr>usr_object = 3, usr_id = ''u3'', usr_username = ''carol'',
             usr_current_room = None\<rparr>"

definition dave :: User where
  "dave = \<lparr>usr_object = 5, usr_id = ''u4'', usr_username = ''dave'', usr_current_room = None\<rparr>"

definition noon :: datetime where
  "noon = \<lparr>dt_year = 2024, dt_month = 5, dt_day = 17, dt_hour = 12, dt_minute = 0,
            dt_second = 9, dt_microsecond = 250\<rparr>"

definition hello :: Message where
  "hello = \<lparr>msg_user_id = ''u1'', msg_username = ''alice'', msg_room_id = ''general'',
             msg_content = ''hi'', msg_message_type = CHAT, msg_timestamp = noon\<rparr>"

text \<open>
  A transport on which every send to websocket 2 raises and every other send returns,
  and one on which every send to websocket 1 raises.
\<close>

definition broken_2 :: "websocket \<Rightarrow> string \<Rightarrow> error option" where
  "broken_2 c s = (if c = 2 then Some (Failure ''closed'') else None)"

definition broken_1 :: "websocket \<Rightarrow> string \<Rightarrow> error option" where
  "broken_1 c s = (if c = 1 then Some (Failure ''closed'') else None)"

text \<open>
  The other tasks during a broadcast: none runs during the first send, and during the
  second the task of a new request calls \<^verbatim>\<open>connect\<close> for the room \<^verbatim>\<open>general\<close>.
\<close>

definition dave_joins :: "task_call list list" where
  "dave_joins = [[], [TaskConnect True 4 dave ''general'']]"

definition three_in_general :: "call list" where
  "three_in_general =
     [Connect True 1 alice ''general'', Connect True 2 bob ''general'',
      Connect True 3 carol ''general'']"

text \<open>
  A registry whose room has a connection set and no member set. No history reaches it;
  it shows the order of the steps of \<^verbatim>\<open>disconnect\<close>.
\<close>

definition no_member_set :: ConnectionManager where
  "no_member_set =
     \<lparr>active_connections = [''general'' \<mapsto> [1]],
      user_sessions = [1 \<mapsto> alice\<lparr>usr_current_room := Some ''general''\<rparr>],
      room_members = Map.empty\<rparr>"

text \<open>Histories for the examples.\<close>

definition same_user_twice :: "call list" where
  "same_user_twice =
     [Connect True 1 alice ''general'', Connect True 2 alice_again ''general'', Disconnect 1]"

definition empty_room_id :: "call list" where
  "empty_room_id = [Connect True 1 alice [], Disconnect 1]"

definition shared_user :: "call list" where
  "shared_user =
     [Connect True 1 alice ''general'', Connect True 2 alice ''tech'', Disconnect 1]"

definition busy_day :: "call list" where
  "busy_day =
     [Connect True 1 alice ''general'', Connect True 2 bob ''tech'',
      Connect True 3 carol ''general'', Disconnect 1,
      Broadcast broken_2 [] ''tech'' hello]"

text \<open>
  A world in which every call on the transport and on the broker returns, and a decoder
  that knows one payload.
\<close>

definition calm :: world where
  "calm = \<lparr>accepts = True, subscribes = (\<lambda>ch. None), publishes = (\<lambda>ch s. None)\<rparr>"

definition decode_hello :: "string \<Rightarrow> error + Message" where
  "decode_hello s = (if s = ''hello'' then Inr hello else Inl (Failure ''Expecting value''))"

definition ev_subscribed :: broker_event where
  "ev_subscribed = \<lparr>ev_type = ''subscribe'', ev_channel = ''room:general'', ev_data = ''1''\<rparr>"

definition ev_garbled :: broker_event where
  "ev_garbled = \<lparr>ev_type = ''message'', ev_channel = ''room:general'', ev_data = ''{oops''\<rparr>"

definition ev_hello :: broker_event where
  "ev_hello = \<lparr>ev_type = ''message'', ev_channel = ''room:general'', ev_data = ''hello''\<rparr>"

text \<open>Bob's request after start-up, and the two messages the gateway makes for him.\<close>

definition after_startup :: App where
  "after_startup = started ''redis://localhost:6379'' (\<lambda>c s. None) [] noon"

definition bob_joined :: Message where
  "bob_joined = \<lparr>msg_user_id = ''u2'', msg_username = ''bob'', msg_room_id = ''general'',
                  msg_content = ''bob joined the room'', msg_message_type = JOIN,
                  msg_timestamp = noon\<rparr>"

definition bob_left :: Message where
  "bob_left = \<lparr>msg_user_id = ''u2'', msg_username = ''bob'', msg_room_id = ''general'',
                msg_content = ''bob left the room'', msg_message_type = LEAVE,
                msg_timestamp = noon\<rparr>"

section \<open>Properties of the connection registry\<close>

subsection \<open>Sets as lists\<close>

lemma set_set_add [simp]: "set (set_add x xs) = insert x (set xs)"
  by (auto simp: set_add_def)

lemma distinct_set_add [simp]: "distinct (set_add x xs) = distinct xs"
  by (auto simp: set_add_def)

lemma set_add_not_Nil [simp]: "set_add x xs \<noteq> []"
  by (auto simp: set_add_def)

lemma set_set_discard [simp]: "set (set_discard x xs) = set xs - {x}"
  by (auto simp: set_discard_def)

lemma distinct_set_discard [simp]: "distinct xs \<Longrightarrow> distinct (set_discard x xs)"
  by (simp add: set_discard_def distinct_removeAll)

subsection \<open>The cases of \<^verbatim>\<open>disconnect\<close>\<close>

lemma disconnect_unknown:
  "user_sessions cm w = None \<Longrightarrow> disconnect w cm = (Returns, cm, [])"
  by (simp add: disconnect_def)

lemma disconnect_no_room:
  assumes "user_sessions cm w = Some u"
    and "usr_current_room u = None \<or> usr_current_room u = Some []
         \<or> (\<exists>r. usr_current_room u = Some r \<and> active_connections cm r = None)"
  shows "disconnect w cm =
     (Returns, cm\<lparr>user_sessions := (user_sessions cm)(w := None)\<rparr>,
      [LogInfo (''User '' @ usr_username u @ '' disconnected from room ''
                @ fmt_room (usr_current_room u))])"
  using assms by (auto simp: disconnect_def room_cleanup_def)

lemma disconnect_in_room:
  assumes "user_sessions cm w = Some u" and "usr_current_room u = Some r" and "r \<noteq> []"
    and "active_connections cm r = Some c" and "room_members cm r = Some m"
  shows "disconnect w cm =
     (Returns,
      (if set_discard w c = []
       then cm\<lparr>active_connections := (active_connections cm)(r := None),
               room_members := (room_members cm)(r := None),
               user_sessions := (user_sessions cm)(w := None)\<rparr>
       else cm\<lparr>active_connections := (active_connections cm)(r \<mapsto> set_discard w c),
               room_members := (room_members cm)(r \<mapsto> set_discard (usr_id u) m),
               user_sessions := (user_sessions cm)(w := None)\<rparr>),
      [LogInfo (''User '' @ usr_username u @ '' disconnected from room '' @ r)])"
  using assms by (simp add: disconnect_def room_cleanup_def Let_def fmt_room_def)

lemma disconnect_key_error:
  assumes "user_sessions cm w = Some u" and "usr_current_room u = Some r" and "r \<noteq> []"
    and "active_connections cm r = Some c" and "room_members cm r = None"
  shows "disconnect w cm =
     (Raises KeyError,
      cm\<lparr>active_connections := (active_connections cm)(r \<mapsto> set_discard w c)\<rparr>, [])"
  using assms by (simp add: disconnect_def room_cleanup_def Let_def)



subsection \<open>What \<^verbatim>\<open>connect\<close> and \<^verbatim>\<open>disconnect\<close> keep\<close>

text \<open>
  \<^verbatim>\<open>connect\<close> and \<^verbatim>\<open>disconnect\<close> keep a registry consistent, and on a consistent
  registry neither raises \<^verbatim>\<open>KeyError\<close>. They keep the sessions seated. They keep every
  websocket in one room when \<^verbatim>\<open>connect\<close> is given a websocket that is in no connection
  set, and the connections placed when it is given a websocket without a session, a room
  id that is not empty and a \<^verbatim>\<open>User\<close> object that is no session yet.
\<close>

lemma consistent_init: "consistent init_manager"
  by (simp add: consistent_def init_manager_def)

lemma placed_init: "placed init_manager"
  by (simp add: placed_def init_manager_def)

lemma seated_init: "seated init_manager"
  by (simp add: seated_def init_manager_def)

lemma one_room_init: "one_room init_manager"
  by (simp add: one_room_def room_connections_def init_manager_def)

lemma members_of_active:
  "consistent cm \<Longrightarrow> active_connections cm r = Some c \<Longrightarrow> \<exists>m. room_members cm r = Some m"
  unfolding consistent_def by (metis domI domD)

lemma active_of_members:
  "consistent cm \<Longrightarrow> active_connections cm r = None \<Longrightarrow> room_members cm r = None"
  unfolding consistent_def by (metis domIff)

lemma connect_consistent:
  assumes "consistent cm"
  shows "consistent (fst (snd (connect ok w u r cm)))"
proof (cases ok)
  case False
  then show ?thesis using assms by (simp add: connect_def)
next
  case True
  show ?thesis
  proof (cases "active_connections cm r")
    case None
    then show ?thesis using assms True
      by (auto simp: connect_def consistent_def Let_def)
  next
    case (Some c)
    then obtain m where m: "room_members cm r = Some m"
      using assms members_of_active by blast
    then show ?thesis using assms True Some
      by (auto simp: connect_def consistent_def Let_def)
  qed
qed

lemma connect_returns:
  "consistent cm \<Longrightarrow> ok \<Longrightarrow> fst (connect ok w u r cm) = Returns"
  by (cases "active_connections cm r")
     (auto simp: connect_def Let_def dest: members_of_active)

lemma connect_refused: "connect False w u r cm = (Raises AcceptFailed, cm, [])"
  by (simp add: connect_def)

lemma dom_assign [simp]: "dom (assign u s) = dom s"
  by (auto simp: assign_def split: option.splits)

lemma assign_own:
  "usr_object u \<notin> session_objects cm \<Longrightarrow> assign u (user_sessions cm) = user_sessions cm"
  unfolding session_objects_def assign_def
  by (rule ext) (auto split: option.splits)

lemma connect_fields:
  assumes "consistent cm"
  shows "connect True w u r cm =
     (Returns,
      cm\<lparr>active_connections :=
           (active_connections cm)
             (r \<mapsto> set_add w (case active_connections cm r of None \<Rightarrow> [] | Some c \<Rightarrow> c)),
         room_members :=
           (room_members cm)
             (r \<mapsto> set_add (usr_id u) (case room_members cm r of None \<Rightarrow> [] | Some m \<Rightarrow> m)),
         user_sessions :=
           (assign (u\<lparr>usr_current_room := Some r\<rparr>) (user_sessions cm))
             (w \<mapsto> u\<lparr>usr_current_room := Some r\<rparr>)\<rparr>,
      [Accept w, LogInfo (''User '' @ usr_username u @ '' connected to room '' @ r)])"
proof (cases "active_connections cm r")
  case None
  then show ?thesis using assms active_of_members [OF assms None]
    by (simp add: connect_def Let_def)
next
  case (Some c)
  then obtain m where "room_members cm r = Some m"
    using assms members_of_active by blast
  then show ?thesis using Some by (simp add: connect_def Let_def)
qed

lemma connect_fields_own:
  assumes "consistent cm" and "usr_object u \<notin> session_objects cm"
  shows "connect True w u r cm =
     (Returns,
      cm\<lparr>active_connections :=
           (active_connections cm)
             (r \<mapsto> set_add w (case active_connections cm r of None \<Rightarrow> [] | Some c \<Rightarrow> c)),
         room_members :=
           (room_members cm)
             (r \<mapsto> set_add (usr_id u) (case room_members cm r of None \<Rightarrow> [] | Some m \<Rightarrow> m)),
         user_sessions := (user_sessions cm)(w \<mapsto> u\<lparr>usr_current_room := Some r\<rparr>)\<rparr>,
      [Accept w, LogInfo (''User '' @ usr_username u @ '' connected to room '' @ r)])"
proof -
  have "usr_object (u\<lparr>usr_current_room := Some r\<rparr>) \<notin> session_objects cm"
    using assms(2) by simp
  then have "assign (u\<lparr>usr_current_room := Some r\<rparr>) (user_sessions cm) = user_sessions cm"
    by (rule assign_own)
  then show ?thesis using connect_fields [OF assms(1), of w u r] by simp
qed

lemma connect_sessions:
  "dom (user_sessions (fst (snd (connect ok w u r cm)))) \<subseteq> insert w (dom (user_sessions cm))"
  by (auto simp: connect_def Let_def assign_def split: option.splits if_splits)

lemma connect_connections:
  assumes "consistent cm"
  shows "room_connections (fst (snd (connect True w u r cm))) r' =
     (if r' = r then insert w (room_connections cm r) else room_connections cm r')"
  using connect_fields [OF assms, of w u r]
  by (auto simp: room_connections_def split: option.splits)

lemma connect_seats:
  assumes "consistent cm"
  shows "seats (fst (snd (connect ok w u r cm))) \<subseteq> insert w (seats cm)"
proof (cases ok)
  case True
  then show ?thesis unfolding seats_def
    by (auto simp: connect_connections [OF assms] split: if_splits)
next
  case False
  then show ?thesis by (auto simp: connect_refused)
qed

lemma connect_objects_sub:
  assumes "consistent cm"
  shows "session_objects (fst (snd (connect ok w u r cm)))
           \<subseteq> insert (usr_object u) (session_objects cm)"
proof (cases ok)
  case True
  then show ?thesis unfolding session_objects_def
    by (auto simp: connect_fields [OF assms] assign_def split: if_splits option.splits)
next
  case False
  then show ?thesis by (auto simp: connect_refused)
qed

lemma connect_all_ids:
  assumes "consistent cm"
  shows "all_session_ids (fst (snd (connect ok w u r cm)))
           \<subseteq> insert (usr_id u) (all_session_ids cm)"
proof (cases ok)
  case True
  then show ?thesis unfolding all_session_ids_def
    by (auto simp: connect_fields [OF assms] assign_def split: if_splits option.splits)
next
  case False
  then show ?thesis by (auto simp: connect_refused)
qed

lemma connect_seated:
  assumes "consistent cm" and "seated cm"
  shows "seated (fst (snd (connect ok w u r cm)))"
proof (cases ok)
  case True
  have "dom (user_sessions (fst (snd (connect True w u r cm)))) = insert w (dom (user_sessions cm))"
    by (simp add: connect_fields [OF assms(1)])
  moreover have "seats (fst (snd (connect True w u r cm))) = insert w (seats cm)"
    unfolding seats_def by (auto simp: connect_connections [OF assms(1)] split: if_splits)
  ultimately show ?thesis using assms(2) True unfolding seated_def by auto
next
  case False
  then show ?thesis using assms(2) by (simp add: connect_refused)
qed

lemma connect_one_room:
  assumes "consistent cm" and "one_room cm" and "w \<notin> seats cm"
  shows "one_room (fst (snd (connect ok w u r cm)))"
proof (cases ok)
  case True
  have "w \<notin> room_connections cm r'" for r'
    using assms(3) unfolding seats_def by blast
  then show ?thesis using assms(2) True unfolding one_room_def
    by (auto simp: connect_connections [OF assms(1)] split: if_splits)
next
  case False
  then show ?thesis using assms(2) by (simp add: connect_refused)
qed

lemma disconnect_consistent:
  assumes "consistent cm"
  shows "fst (disconnect w cm) = Returns \<and> consistent (fst (snd (disconnect w cm)))"
proof (cases "user_sessions cm w")
  case None
  then show ?thesis using assms by (simp add: disconnect_unknown)
next
  case (Some u)
  show ?thesis
  proof (cases "usr_current_room u = None \<or> usr_current_room u = Some []
         \<or> (\<exists>r. usr_current_room u = Some r \<and> active_connections cm r = None)")
    case True
    then show ?thesis using assms disconnect_no_room [OF Some True]
      by (simp add: consistent_def)
  next
    case False
    then obtain r c where r: "usr_current_room u = Some r" "r \<noteq> []"
        "active_connections cm r = Some c"
      by auto
    then obtain m where m: "room_members cm r = Some m"
      using assms members_of_active by blast
    show ?thesis using assms r m disconnect_in_room [OF Some r m]
      by (auto simp: consistent_def)
  qed
qed


lemma disconnect_sessions:
  "consistent cm \<Longrightarrow>
   user_sessions (fst (snd (disconnect w cm))) = (user_sessions cm)(w := None)"
proof (cases "user_sessions cm w")
  case None
  then show ?thesis by (auto simp: disconnect_unknown)
next
  case (Some u)
  assume c: "consistent cm"
  show ?thesis
  proof (cases "usr_current_room u = None \<or> usr_current_room u = Some []
         \<or> (\<exists>r. usr_current_room u = Some r \<and> active_connections cm r = None)")
    case True
    then show ?thesis using disconnect_no_room [OF Some True] by simp
  next
    case False
    then obtain r c where r: "usr_current_room u = Some r" "r \<noteq> []"
        "active_connections cm r = Some c"
      by auto
    then obtain m where m: "room_members cm r = Some m"
      using c members_of_active by blast
    show ?thesis using disconnect_in_room [OF Some r m] by simp
  qed
qed


lemma disconnect_connections:
  assumes "consistent cm"
  shows "room_connections (fst (snd (disconnect w cm))) r' \<subseteq> room_connections cm r'
     \<and> room_connections cm r' - {w} \<subseteq> room_connections (fst (snd (disconnect w cm))) r'"
proof (cases "user_sessions cm w")
  case None
  then show ?thesis by (simp add: disconnect_unknown)
next
  case (Some u)
  show ?thesis
  proof (cases "usr_current_room u = None \<or> usr_current_room u = Some []
         \<or> (\<exists>r. usr_current_room u = Some r \<and> active_connections cm r = None)")
    case True
    then show ?thesis using disconnect_no_room [OF Some True]
      by (simp add: room_connections_def)
  next
    case False
    then obtain r c where r: "usr_current_room u = Some r" "r \<noteq> []"
        "active_connections cm r = Some c"
      by auto
    then obtain m where m: "room_members cm r = Some m"
      using assms members_of_active by blast
    have e: "(set_discard w c = []) = (set c \<subseteq> {w})"
      by (auto simp: set_discard_def removeAll_filter_not_eq filter_empty_conv)
    show ?thesis using r disconnect_in_room [OF Some r m] e
      by (auto simp: room_connections_def split: option.splits if_splits)
  qed
qed

lemma disconnect_seats:
  "consistent cm \<Longrightarrow> seats (fst (snd (disconnect w cm))) \<subseteq> seats cm"
  unfolding seats_def using disconnect_connections [of cm w] by blast

lemma disconnect_seated:
  assumes "consistent cm" and "seated cm"
  shows "seated (fst (snd (disconnect w cm)))"
proof -
  have "seats cm - {w} \<subseteq> seats (fst (snd (disconnect w cm)))"
    unfolding seats_def using disconnect_connections [OF assms(1), of w] by blast
  then show ?thesis
    using assms(2) disconnect_sessions [OF assms(1), of w] unfolding seated_def by auto
qed

lemma disconnect_one_room:
  assumes "consistent cm" and "one_room cm"
  shows "one_room (fst (snd (disconnect w cm)))"
  using assms(2) disconnect_connections [OF assms(1), of w] unfolding one_room_def by blast

lemma disconnect_objects_sub:
  "consistent cm \<Longrightarrow> session_objects (fst (snd (disconnect w cm))) \<subseteq> session_objects cm"
  unfolding session_objects_def
  by (auto simp: disconnect_sessions split: if_splits)

lemma disconnect_all_ids:
  "consistent cm \<Longrightarrow> all_session_ids (fst (snd (disconnect w cm))) \<subseteq> all_session_ids cm"
  unfolding all_session_ids_def
  by (auto simp: disconnect_sessions split: if_splits)

lemma disconnect_placed:
  assumes "consistent cm" and "placed cm"
  shows "placed (fst (snd (disconnect w cm)))"
proof (cases "user_sessions cm w")
  case None
  then show ?thesis using assms by (simp add: disconnect_unknown)
next
  case (Some u)
  then obtain r c where r: "usr_current_room u = Some r" "r \<noteq> []"
      "active_connections cm r = Some c" and wc: "w \<in> set c"
    using assms(2) unfolding placed_def by blast
  then obtain m where m: "room_members cm r = Some m"
    using assms(1) members_of_active by blast
  define cm' where "cm' = fst (snd (disconnect w cm))"
  have only: "r' = r" if "active_connections cm r' = Some c'" "w \<in> set c'" for r' c'
    using assms(2) Some r that unfolding placed_def by (metis option.inject)
  have sess: "user_sessions cm' = (user_sessions cm)(w := None)"
    unfolding cm'_def using disconnect_in_room [OF Some r m] by simp
  have other: "active_connections cm' r' = active_connections cm r'" if "r' \<noteq> r" for r'
    unfolding cm'_def using disconnect_in_room [OF Some r m] that by simp
  have here: "active_connections cm' r = (if set c \<subseteq> {w} then None else Some (set_discard w c))"
    unfolding cm'_def using disconnect_in_room [OF Some r m]
    by (auto simp: set_discard_def removeAll_filter_not_eq filter_empty_conv)
  have act: "\<exists>c0. active_connections cm r' = Some c0 \<and> set c' = set c0 - {w}"
    if "active_connections cm' r' = Some c'" for r' c'
  proof (cases "r' = r")
    case True
    then show ?thesis using that here r by (auto split: if_splits)
  next
    case False
    then have "active_connections cm r' = Some c'" using that other by simp
    moreover have "w \<notin> set c'" using only calculation False by blast
    ultimately show ?thesis by auto
  qed
  have keep: "\<exists>c'. active_connections cm' r' = Some c' \<and> w' \<in> set c'"
    if "active_connections cm r' = Some c0" "w' \<in> set c0" "w' \<noteq> w" for r' c0 w'
  proof (cases "r' = r")
    case True
    then show ?thesis using that here r by auto
  next
    case False
    then show ?thesis using that other by auto
  qed
  show ?thesis
    unfolding placed_def cm'_def [symmetric]
  proof (intro conjI allI impI)
    fix w' u'
    assume "user_sessions cm' w' = Some u'"
    then have "w' \<noteq> w" "user_sessions cm w' = Some u'"
      using sess by (auto split: if_splits)
    then obtain r' c0 where "usr_current_room u' = Some r'" "r' \<noteq> []"
        "active_connections cm r' = Some c0" "w' \<in> set c0"
      using assms(2) unfolding placed_def by blast
    then show "\<exists>r c. usr_current_room u' = Some r \<and> r \<noteq> [] \<and> active_connections cm' r = Some c
               \<and> w' \<in> set c"
      using keep \<open>w' \<noteq> w\<close> by blast
  next
    fix r' c' w'
    assume "active_connections cm' r' = Some c' \<and> w' \<in> set c'"
    then obtain c0 where "active_connections cm r' = Some c0" "w' \<in> set c0" "w' \<noteq> w"
      using act by blast
    then show "\<exists>u. user_sessions cm' w' = Some u \<and> usr_current_room u = Some r'"
      using assms(2) sess unfolding placed_def by auto
  qed
qed


lemma connect_placed:
  assumes "consistent cm" and "placed cm" and "user_sessions cm w = None" and "r \<noteq> []"
    and "usr_object u \<notin> session_objects cm"
  shows "placed (fst (snd (connect ok w u r cm)))"
proof (cases ok)
  case False
  then show ?thesis using assms by (simp add: connect_def)
next
  case True
  define cm' where "cm' = fst (snd (connect ok w u r cm))"
  define c0 where "c0 = (case active_connections cm r of None \<Rightarrow> [] | Some c \<Rightarrow> c)"
  have fresh: "w \<notin> set c" if "active_connections cm r' = Some c" for r' c
    using assms(2,3) that unfolding placed_def by fastforce
  have sess: "user_sessions cm' = (user_sessions cm)(w \<mapsto> u\<lparr>usr_current_room := Some r\<rparr>)"
    and act: "active_connections cm' = (active_connections cm)(r \<mapsto> set_add w c0)"
    unfolding cm'_def c0_def using True connect_fields_own [OF assms(1,5)] by simp_all
  have c0: "set c0 = set c" if "active_connections cm r = Some c" for c
    using that by (simp add: c0_def)
  show ?thesis
    unfolding placed_def cm'_def [symmetric]
  proof (intro conjI allI impI)
    fix w' u'
    assume s: "user_sessions cm' w' = Some u'"
    show "\<exists>r c. usr_current_room u' = Some r \<and> r \<noteq> [] \<and> active_connections cm' r = Some c
               \<and> w' \<in> set c"
    proof (cases "w' = w")
      case True
      then show ?thesis using s sess act assms(4) by auto
    next
      case False
      then have "user_sessions cm w' = Some u'" using s sess by simp
      then obtain r' c where *: "usr_current_room u' = Some r'" "r' \<noteq> []"
          "active_connections cm r' = Some c" "w' \<in> set c"
        using assms(2) unfolding placed_def by blast
      show ?thesis
      proof (cases "r' = r")
        case True
        then show ?thesis using * act c0 by auto
      next
        case False
        then show ?thesis using * act by auto
      qed
    qed
  next
    fix r' c' w'
    assume a: "active_connections cm' r' = Some c' \<and> w' \<in> set c'"
    show "\<exists>u. user_sessions cm' w' = Some u \<and> usr_current_room u = Some r'"
    proof (cases "w' = w")
      case True
      have "r' = r"
      proof (rule ccontr)
        assume "r' \<noteq> r"
        then have "active_connections cm r' = Some c'" using a act by simp
        then show False using fresh a True by blast
      qed
      then show ?thesis using True sess by simp
    next
      case False
      have "\<exists>c. active_connections cm r' = Some c \<and> w' \<in> set c"
      proof (cases "r' = r")
        case True
        then have "w' \<in> set c0" using a act False by auto
        then show ?thesis using True by (cases "active_connections cm r") (auto simp: c0_def)
      next
        case False
        then show ?thesis using a act by simp
      qed
      then show ?thesis using assms(2) sess False unfolding placed_def by auto
    qed
  qed
qed

subsection \<open>Member sets and sessions\<close>

lemma counted_init: "counted init_manager"
  by (simp add: counted_def init_manager_def)

lemma no_sessions_no_members:
  assumes "consistent cm" and "placed cm" and "room_members cm r = None"
  shows "session_ids cm r = {}"
proof -
  have "active_connections cm r = None"
    using assms(1,3) unfolding consistent_def by (metis domIff)
  then show ?thesis
    using assms(2) unfolding placed_def session_ids_def by fastforce
qed

lemma connect_counted:
  assumes "consistent cm" and "placed cm" and "counted cm"
    and "user_sessions cm w = None" and "r \<noteq> []" and "usr_id u \<notin> all_session_ids cm"
    and "usr_object u \<notin> session_objects cm"
  shows "counted (fst (snd (connect ok w u r cm)))"
proof (cases ok)
  case False
  then show ?thesis using assms by (simp add: connect_def)
next
  case True
  define cm' where "cm' = fst (snd (connect ok w u r cm))"
  define m0 where "m0 = (case room_members cm r of None \<Rightarrow> [] | Some m \<Rightarrow> m)"
  have sess: "user_sessions cm' = (user_sessions cm)(w \<mapsto> u\<lparr>usr_current_room := Some r\<rparr>)"
    and mem: "room_members cm' = (room_members cm)(r \<mapsto> set_add (usr_id u) m0)"
    unfolding cm'_def m0_def using True connect_fields_own [OF assms(1,7)] by simp_all
  have m0: "set m0 = session_ids cm r"
  proof (cases "room_members cm r")
    case None
    then show ?thesis using no_sessions_no_members [OF assms(1,2)] by (simp add: m0_def)
  next
    case (Some m)
    then show ?thesis using assms(3) by (simp add: m0_def counted_def)
  qed
  have ids: "session_ids cm' r' = (if r' = r then insert (usr_id u) (session_ids cm r)
                                   else session_ids cm r')" for r'
  proof (intro set_eqI iffI)
    fix i
    assume "i \<in> session_ids cm' r'"
    then obtain w1 u1 where 1: "user_sessions cm' w1 = Some u1" "usr_current_room u1 = Some r'"
        "usr_id u1 = i"
      unfolding session_ids_def by blast
    show "i \<in> (if r' = r then insert (usr_id u) (session_ids cm r) else session_ids cm r')"
    proof (cases "w1 = w")
      case True
      then show ?thesis using 1 sess by auto
    next
      case False
      then have "user_sessions cm w1 = Some u1" using 1 sess by simp
      then have "i \<in> session_ids cm r'" using 1 unfolding session_ids_def by blast
      then show ?thesis by auto
    qed
  next
    fix i
    assume a: "i \<in> (if r' = r then insert (usr_id u) (session_ids cm r) else session_ids cm r')"
    show "i \<in> session_ids cm' r'"
    proof (cases "r' = r \<and> i = usr_id u")
      case True
      have "user_sessions cm' w = Some (u\<lparr>usr_current_room := Some r\<rparr>)" using sess by simp
      then show ?thesis using True unfolding session_ids_def by force
    next
      case False
      then have "i \<in> session_ids cm r'" using a by (auto split: if_splits)
      then obtain w1 u1 where 1: "user_sessions cm w1 = Some u1"
          "usr_current_room u1 = Some r'" "usr_id u1 = i"
        unfolding session_ids_def by blast
      then have "w1 \<noteq> w" using assms(4) by auto
      then have "user_sessions cm' w1 = Some u1" using 1 sess by simp
      then show ?thesis using 1 unfolding session_ids_def by blast
    qed
  qed
  have fresh: "usr_id u' \<noteq> usr_id u" if "user_sessions cm w' = Some u'" for w' u'
    using assms(6) that unfolding all_session_ids_def by auto
  show ?thesis
    unfolding counted_def cm'_def [symmetric]
  proof (intro conjI allI impI)
    fix r' m
    assume "room_members cm' r' = Some m"
    then show "set m = session_ids cm' r'"
      using mem m0 ids assms(3) unfolding counted_def by (auto split: if_splits)
  next
    fix w1 w2 u1 u2
    assume a: "user_sessions cm' w1 = Some u1 \<and> user_sessions cm' w2 = Some u2
        \<and> usr_id u1 = usr_id u2"
    show "w1 = w2"
    proof (cases "w1 = w \<or> w2 = w")
      case True
      then show ?thesis using a sess by (auto split: if_splits dest: fresh fresh [symmetric])
    next
      case False
      then show ?thesis using a sess assms(3) unfolding counted_def
        by (auto split: if_splits)
    qed
  qed
qed


lemma disconnect_counted:
  assumes "consistent cm" and "placed cm" and "counted cm"
  shows "counted (fst (snd (disconnect w cm)))"
proof (cases "user_sessions cm w")
  case None
  then show ?thesis using assms by (simp add: disconnect_unknown)
next
  case (Some u)
  then obtain r c where r: "usr_current_room u = Some r" "r \<noteq> []"
      "active_connections cm r = Some c"
    using assms(2) unfolding placed_def by blast
  then obtain m where m: "room_members cm r = Some m"
    using assms(1) members_of_active by blast
  define cm' where "cm' = fst (snd (disconnect w cm))"
  have sess: "user_sessions cm' = (user_sessions cm)(w := None)"
    unfolding cm'_def using disconnect_in_room [OF Some r m] by simp
  have other: "room_members cm' r' = room_members cm r'" if "r' \<noteq> r" for r'
    unfolding cm'_def using disconnect_in_room [OF Some r m] that by simp
  have here: "room_members cm' r = None \<or> room_members cm' r = Some (set_discard (usr_id u) m)"
    unfolding cm'_def using disconnect_in_room [OF Some r m] by simp
  have only: "w' = w" if "user_sessions cm w' = Some u'" "usr_id u' = usr_id u" for w' u'
    using assms(3) Some that unfolding counted_def by blast
  have ids: "session_ids cm' r' = session_ids cm r' - {usr_id u}" for r'
  proof (intro set_eqI iffI)
    fix i
    assume "i \<in> session_ids cm' r'"
    then obtain w1 u1 where 1: "user_sessions cm' w1 = Some u1" "usr_current_room u1 = Some r'"
        "usr_id u1 = i"
      unfolding session_ids_def by blast
    then have 2: "w1 \<noteq> w" "user_sessions cm w1 = Some u1"
      using sess by (auto split: if_splits)
    then have "i \<noteq> usr_id u" using only [of w1 u1] 1 by auto
    moreover have "i \<in> session_ids cm r'" using 1 2 unfolding session_ids_def by blast
    ultimately show "i \<in> session_ids cm r' - {usr_id u}" by simp
  next
    fix i
    assume "i \<in> session_ids cm r' - {usr_id u}"
    then obtain w1 u1 where 1: "user_sessions cm w1 = Some u1" "usr_current_room u1 = Some r'"
        "usr_id u1 = i" "i \<noteq> usr_id u"
      unfolding session_ids_def by blast
    then have "w1 \<noteq> w" using Some by auto
    then have "user_sessions cm' w1 = Some u1" using 1 sess by simp
    then show "i \<in> session_ids cm' r'" using 1 unfolding session_ids_def by blast
  qed
  have away: "usr_id u \<notin> session_ids cm r'" if "r' \<noteq> r" for r'
  proof
    assume "usr_id u \<in> session_ids cm r'"
    then obtain w1 u1 where 1: "user_sessions cm w1 = Some u1" "usr_current_room u1 = Some r'"
        "usr_id u1 = usr_id u"
      unfolding session_ids_def by blast
    then have "w1 = w" using only by blast
    then show False using 1 Some r that by simp
  qed
  show ?thesis
    unfolding counted_def cm'_def [symmetric]
  proof (intro conjI allI impI)
    fix r' m'
    assume a: "room_members cm' r' = Some m'"
    show "set m' = session_ids cm' r'"
    proof (cases "r' = r")
      case True
      then have "m' = set_discard (usr_id u) m" using a here by auto
      moreover have "set m = session_ids cm r" using assms(3) m unfolding counted_def by blast
      ultimately show ?thesis using True ids by simp
    next
      case False
      then have "room_members cm r' = Some m'" using a other by simp
      then have "set m' = session_ids cm r'" using assms(3) unfolding counted_def by blast
      then show ?thesis using ids away [OF False] by simp
    qed
  next
    fix w1 w2 u1 u2
    assume "user_sessions cm' w1 = Some u1 \<and> user_sessions cm' w2 = Some u2
        \<and> usr_id u1 = usr_id u2"
    then show "w1 = w2"
      using sess assms(3) unfolding counted_def by (auto split: if_splits)
  qed
qed


subsection \<open>Histories of \<^verbatim>\<open>connect\<close> and \<^verbatim>\<open>disconnect\<close> calls\<close>

lemma disjoint_insert_step:
  "A \<inter> S = {} \<Longrightarrow> S' \<subseteq> insert k S \<Longrightarrow> k \<notin> A \<Longrightarrow> A \<inter> S' = {}"
  by auto

lemma disjoint_sub_step: "A \<inter> S = {} \<Longrightarrow> S' \<subseteq> S \<Longrightarrow> A \<inter> S' = {}"
  by auto

lemma task_perform_consistent:
  "consistent cm \<Longrightarrow> consistent (task_perform t cm)"
  by (cases t) (simp_all add: connect_consistent disconnect_consistent)

lemma task_perform_seated:
  "consistent cm \<Longrightarrow> seated cm \<Longrightarrow> seated (task_perform t cm)"
  by (cases t) (simp_all add: connect_seated disconnect_seated)

lemma task_run_shape:
  "consistent cm \<Longrightarrow> seated cm \<Longrightarrow> consistent (task_run ts cm) \<and> seated (task_run ts cm)"
  by (induction ts arbitrary: cm) (simp_all add: task_perform_consistent task_perform_seated)

lemma task_run_consistent:
  "consistent cm \<Longrightarrow> consistent (task_run ts cm)"
  by (induction ts arbitrary: cm) (simp_all add: task_perform_consistent)

lemma task_run_append: "task_run (xs @ ys) cm = task_run ys (task_run xs cm)"
  by (induction xs arbitrary: cm) simp_all

lemma task_connects_append:
  "task_connects (xs @ ys) = task_connects xs @ task_connects ys"
  by (induction xs rule: task_connects.induct) simp_all

lemma task_connects_disconnects: "task_connects (map TaskDisconnect ws) = []"
  by (induction ws) simp_all

lemma task_run_one_room:
  assumes "consistent cm" and "one_room cm"
    and "distinct (map fst (task_connects ts))"
    and "fst ` set (task_connects ts) \<inter> seats cm = {}"
  shows "one_room (task_run ts cm)"
  using assms
proof (induction ts arbitrary: cm)
  case Nil
  then show ?case by simp
next
  case (Cons t ts)
  show ?case
  proof (cases t)
    case (TaskConnect ok w u r)
    let ?cm = "fst (snd (connect ok w u r cm))"
    have 1: "consistent ?cm" using Cons.prems(1) by (rule connect_consistent)
    have 2: "one_room ?cm"
      using Cons.prems(1,2,4) TaskConnect by (intro connect_one_room) auto
    have 3: "distinct (map fst (task_connects ts))" and w: "w \<notin> fst ` set (task_connects ts)"
      using Cons.prems(3) TaskConnect by auto
    have "fst ` set (task_connects ts) \<inter> seats cm = {}"
      using Cons.prems(4) TaskConnect by auto
    then have 4: "fst ` set (task_connects ts) \<inter> seats ?cm = {}"
      using connect_seats [OF Cons.prems(1), of ok w u r] w by (rule disjoint_insert_step)
    show ?thesis using Cons.IH [OF 1 2 3 4] TaskConnect by simp
  next
    case (TaskDisconnect w)
    let ?cm = "fst (snd (disconnect w cm))"
    have 1: "consistent ?cm" using disconnect_consistent [OF Cons.prems(1)] by simp
    have 2: "one_room ?cm" using Cons.prems(1,2) by (rule disconnect_one_room)
    have 3: "distinct (map fst (task_connects ts))"
      using Cons.prems(3) TaskDisconnect by simp
    have "fst ` set (task_connects ts) \<inter> seats cm = {}"
      using Cons.prems(4) TaskDisconnect by simp
    then have 4: "fst ` set (task_connects ts) \<inter> seats ?cm = {}"
      using disconnect_seats [OF Cons.prems(1), of w] by (rule disjoint_sub_step)
    show ?thesis using Cons.IH [OF 1 2 3 4] TaskDisconnect by simp
  qed
qed

lemma task_run_placed:
  assumes "consistent cm" and "placed cm"
    and "distinct (map fst (task_connects ts))"
    and "fst ` set (task_connects ts) \<inter> dom (user_sessions cm) = {}"
    and "[] \<notin> (\<lambda>(w, u, r). r) ` set (task_connects ts)"
    and "distinct (map (\<lambda>(w, u, r). usr_object u) (task_connects ts))"
    and "(\<lambda>(w, u, r). usr_object u) ` set (task_connects ts) \<inter> session_objects cm = {}"
  shows "placed (task_run ts cm)"
  using assms
proof (induction ts arbitrary: cm)
  case Nil
  then show ?case by simp
next
  case (Cons t ts)
  show ?case
  proof (cases t)
    case (TaskConnect ok w u r)
    let ?cm = "fst (snd (connect ok w u r cm))"
    have f: "user_sessions cm w = None" "r \<noteq> []" "usr_object u \<notin> session_objects cm"
      using Cons.prems(4,5,7) TaskConnect by auto
    have 1: "consistent ?cm" using Cons.prems(1) by (rule connect_consistent)
    have 2: "placed ?cm" using Cons.prems(1,2) f by (rule connect_placed)
    have 3: "distinct (map fst (task_connects ts))" and w: "w \<notin> fst ` set (task_connects ts)"
      using Cons.prems(3) TaskConnect by auto
    have "fst ` set (task_connects ts) \<inter> dom (user_sessions cm) = {}"
      using Cons.prems(4) TaskConnect by auto
    then have 4: "fst ` set (task_connects ts) \<inter> dom (user_sessions ?cm) = {}"
      using connect_sessions [of ok w u r cm] w by (rule disjoint_insert_step)
    have 5: "[] \<notin> (\<lambda>(w, u, r). r) ` set (task_connects ts)"
      using Cons.prems(5) TaskConnect by auto
    have 6: "distinct (map (\<lambda>(w, u, r). usr_object u) (task_connects ts))"
      and k: "usr_object u \<notin> (\<lambda>(w, u, r). usr_object u) ` set (task_connects ts)"
      using Cons.prems(6) TaskConnect by auto
    have "(\<lambda>(w, u, r). usr_object u) ` set (task_connects ts) \<inter> session_objects cm = {}"
      using Cons.prems(7) TaskConnect by auto
    then have 7:
      "(\<lambda>(w, u, r). usr_object u) ` set (task_connects ts) \<inter> session_objects ?cm = {}"
      using connect_objects_sub [OF Cons.prems(1), of ok w u r] k by (rule disjoint_insert_step)
    show ?thesis using Cons.IH [OF 1 2 3 4 5 6 7] TaskConnect by simp
  next
    case (TaskDisconnect w)
    let ?cm = "fst (snd (disconnect w cm))"
    have 1: "consistent ?cm" using disconnect_consistent [OF Cons.prems(1)] by simp
    have 2: "placed ?cm" using Cons.prems(1,2) by (rule disconnect_placed)
    have 3: "distinct (map fst (task_connects ts))"
      using Cons.prems(3) TaskDisconnect by simp
    have "fst ` set (task_connects ts) \<inter> dom (user_sessions cm) = {}"
      using Cons.prems(4) TaskDisconnect by simp
    moreover have "dom (user_sessions ?cm) \<subseteq> dom (user_sessions cm)"
      by (simp add: disconnect_sessions [OF Cons.prems(1)])
    ultimately have 4: "fst ` set (task_connects ts) \<inter> dom (user_sessions ?cm) = {}"
      by (rule disjoint_sub_step)
    have 5: "[] \<notin> (\<lambda>(w, u, r). r) ` set (task_connects ts)"
      using Cons.prems(5) TaskDisconnect by simp
    have 6: "distinct (map (\<lambda>(w, u, r). usr_object u) (task_connects ts))"
      using Cons.prems(6) TaskDisconnect by simp
    have "(\<lambda>(w, u, r). usr_object u) ` set (task_connects ts) \<inter> session_objects cm = {}"
      using Cons.prems(7) TaskDisconnect by simp
    then have 7:
      "(\<lambda>(w, u, r). usr_object u) ` set (task_connects ts) \<inter> session_objects ?cm = {}"
      using disconnect_objects_sub [OF Cons.prems(1), of w] by (rule disjoint_sub_step)
    show ?thesis using Cons.IH [OF 1 2 3 4 5 6 7] TaskDisconnect by simp
  qed
qed

lemma task_run_counted:
  assumes "consistent cm" and "placed cm" and "counted cm"
    and "distinct (map fst (task_connects ts))"
    and "fst ` set (task_connects ts) \<inter> dom (user_sessions cm) = {}"
    and "[] \<notin> (\<lambda>(w, u, r). r) ` set (task_connects ts)"
    and "distinct (map (\<lambda>(w, u, r). usr_object u) (task_connects ts))"
    and "(\<lambda>(w, u, r). usr_object u) ` set (task_connects ts) \<inter> session_objects cm = {}"
    and "distinct (map (\<lambda>(w, u, r). usr_id u) (task_connects ts))"
    and "(\<lambda>(w, u, r). usr_id u) ` set (task_connects ts) \<inter> all_session_ids cm = {}"
  shows "placed (task_run ts cm) \<and> counted (task_run ts cm)"
  using assms
proof (induction ts arbitrary: cm)
  case Nil
  then show ?case by simp
next
  case (Cons t ts)
  show ?case
  proof (cases t)
    case (TaskConnect ok w u r)
    let ?cm = "fst (snd (connect ok w u r cm))"
    have f: "user_sessions cm w = None" "r \<noteq> []" "usr_object u \<notin> session_objects cm"
      "usr_id u \<notin> all_session_ids cm"
      using Cons.prems(5,6,8,10) TaskConnect by auto
    have 1: "consistent ?cm" using Cons.prems(1) by (rule connect_consistent)
    have 2: "placed ?cm" using Cons.prems(1,2) f(1,2,3) by (rule connect_placed)
    have 3: "counted ?cm" using Cons.prems(1,2,3) f(1,2,4,3) by (rule connect_counted)
    have 4: "distinct (map fst (task_connects ts))" and w: "w \<notin> fst ` set (task_connects ts)"
      using Cons.prems(4) TaskConnect by auto
    have "fst ` set (task_connects ts) \<inter> dom (user_sessions cm) = {}"
      using Cons.prems(5) TaskConnect by auto
    then have 5: "fst ` set (task_connects ts) \<inter> dom (user_sessions ?cm) = {}"
      using connect_sessions [of ok w u r cm] w by (rule disjoint_insert_step)
    have 6: "[] \<notin> (\<lambda>(w, u, r). r) ` set (task_connects ts)"
      using Cons.prems(6) TaskConnect by auto
    have 7: "distinct (map (\<lambda>(w, u, r). usr_object u) (task_connects ts))"
      and k: "usr_object u \<notin> (\<lambda>(w, u, r). usr_object u) ` set (task_connects ts)"
      using Cons.prems(7) TaskConnect by auto
    have "(\<lambda>(w, u, r). usr_object u) ` set (task_connects ts) \<inter> session_objects cm = {}"
      using Cons.prems(8) TaskConnect by auto
    then have 8:
      "(\<lambda>(w, u, r). usr_object u) ` set (task_connects ts) \<inter> session_objects ?cm = {}"
      using connect_objects_sub [OF Cons.prems(1), of ok w u r] k by (rule disjoint_insert_step)
    have 9: "distinct (map (\<lambda>(w, u, r). usr_id u) (task_connects ts))"
      and i: "usr_id u \<notin> (\<lambda>(w, u, r). usr_id u) ` set (task_connects ts)"
      using Cons.prems(9) TaskConnect by auto
    have "(\<lambda>(w, u, r). usr_id u) ` set (task_connects ts) \<inter> all_session_ids cm = {}"
      using Cons.prems(10) TaskConnect by auto
    then have 10:
      "(\<lambda>(w, u, r). usr_id u) ` set (task_connects ts) \<inter> all_session_ids ?cm = {}"
      using connect_all_ids [OF Cons.prems(1), of ok w u r] i by (rule disjoint_insert_step)
    show ?thesis using Cons.IH [OF 1 2 3 4 5 6 7 8 9 10] TaskConnect by simp
  next
    case (TaskDisconnect w)
    let ?cm = "fst (snd (disconnect w cm))"
    have 1: "consistent ?cm" using disconnect_consistent [OF Cons.prems(1)] by simp
    have 2: "placed ?cm" using Cons.prems(1,2) by (rule disconnect_placed)
    have 3: "counted ?cm" using Cons.prems(1,2,3) by (rule disconnect_counted)
    have 4: "distinct (map fst (task_connects ts))"
      using Cons.prems(4) TaskDisconnect by simp
    have "fst ` set (task_connects ts) \<inter> dom (user_sessions cm) = {}"
      using Cons.prems(5) TaskDisconnect by simp
    moreover have "dom (user_sessions ?cm) \<subseteq> dom (user_sessions cm)"
      by (simp add: disconnect_sessions [OF Cons.prems(1)])
    ultimately have 5: "fst ` set (task_connects ts) \<inter> dom (user_sessions ?cm) = {}"
      by (rule disjoint_sub_step)
    have 6: "[] \<notin> (\<lambda>(w, u, r). r) ` set (task_connects ts)"
      using Cons.prems(6) TaskDisconnect by simp
    have 7: "distinct (map (\<lambda>(w, u, r). usr_object u) (task_connects ts))"
      using Cons.prems(7) TaskDisconnect by simp
    have "(\<lambda>(w, u, r). usr_object u) ` set (task_connects ts) \<inter> session_objects cm = {}"
      using Cons.prems(8) TaskDisconnect by simp
    then have 8:
      "(\<lambda>(w, u, r). usr_object u) ` set (task_connects ts) \<inter> session_objects ?cm = {}"
      using disconnect_objects_sub [OF Cons.prems(1), of w] by (rule disjoint_sub_step)
    have 9: "distinct (map (\<lambda>(w, u, r). usr_id u) (task_connects ts))"
      using Cons.prems(9) TaskDisconnect by simp
    have "(\<lambda>(w, u, r). usr_id u) ` set (task_connects ts) \<inter> all_session_ids cm = {}"
      using Cons.prems(10) TaskDisconnect by simp
    then have 10:
      "(\<lambda>(w, u, r). usr_id u) ` set (task_connects ts) \<inter> all_session_ids ?cm = {}"
      using disconnect_all_ids [OF Cons.prems(1), of w] by (rule disjoint_sub_step)
    show ?thesis using Cons.IH [OF 1 2 3 4 5 6 7 8 9 10] TaskDisconnect by simp
  qed
qed

subsection \<open>The two loops of \<^verbatim>\<open>broadcast_to_room\<close>\<close>

text \<open>
  What one pass of the first loop adds to the events and to the connections collected.
\<close>

lemma meanwhile_run: "snd (meanwhile ts r cm) = task_run ts cm"
proof (induction ts arbitrary: cm)
  case Nil
  then show ?case by simp
next
  case (Cons t ts)
  obtain w cm' where m: "meanwhile ts r (task_perform t cm) = (w, cm')"
    by (cases "meanwhile ts r (task_perform t cm)") auto
  then have "cm' = task_run ts (task_perform t cm)"
    using Cons.IH [of "task_perform t cm"] by simp
  then show ?case using m by (cases w) simp_all
qed

lemma meanwhile_Nil: "meanwhile [] r cm = (Unchanged, cm)"
  by simp

lemma sweep_Cons:
  "send_sweep st others s r n Unchanged (c # rest) d cm =
     (case send_sweep st (drop 1 others) s r n (fst (meanwhile (concat (take 1 others)) r cm))
             rest (case st c s of None \<Rightarrow> d | Some e \<Rightarrow> set_add c d)
             (task_run (concat (take 1 others)) cm) of
        (res, d', cm', evs) \<Rightarrow>
          (res, d', cm',
           (case st c s of
              None \<Rightarrow> [SendText c s]
            | Some e \<Rightarrow> [SendTextRaised c s, LogException ''Error sending message: '' e])
           @ evs))"
  by (simp add: case_prod_beta meanwhile_run split: option.splits)

lemma sweep_registry:
  "\<exists>k. fst (snd (snd (send_sweep st others s r n touched cs d cm)))
        = task_run (concat (take k others)) cm"
proof (induction cs arbitrary: others touched d cm)
  case Nil
  have "fst (snd (snd (send_sweep st others s r n touched [] d cm)))
        = task_run (concat (take 0 others)) cm"
    by (cases touched) simp_all
  then show ?case by blast
next
  case (Cons c cs)
  show ?case
  proof (cases "touched = Unchanged")
    case False
    have "fst (snd (snd (send_sweep st others s r n touched (c # cs) d cm)))
        = task_run (concat (take 0 others)) cm"
      using False by (cases touched) simp_all
    then show ?thesis by blast
  next
    case True
    let ?t = "fst (meanwhile (concat (take 1 others)) r cm)"
    let ?d = "case st c s of None \<Rightarrow> d | Some e \<Rightarrow> set_add c d"
    let ?cm = "task_run (concat (take 1 others)) cm"
    obtain k where k: "fst (snd (snd (send_sweep st (drop 1 others) s r n ?t cs ?d ?cm)))
        = task_run (concat (take k (drop 1 others))) ?cm"
      using Cons.IH by blast
    have "take 1 others @ take k (drop 1 others) = take (1 + k) others"
      by (simp only: take_add)
    then have "concat (take 1 others) @ concat (take k (drop 1 others))
        = concat (take (1 + k) others)"
      by (metis concat_append)
    then have "fst (snd (snd (send_sweep st others s r n touched (c # cs) d cm)))
        = task_run (concat (take (1 + k) others)) cm"
      using True k
      by (simp add: sweep_Cons case_prod_beta task_run_append [symmetric]
          del: send_sweep.simps)
    then show ?thesis by blast
  qed
qed


text \<open>The first loop when no other task runs during it.\<close>

lemma quiet_parts:
  "concat others = [] \<Longrightarrow> concat (take k others) = [] \<and> concat (drop k others) = []"
  by (auto dest: in_set_takeD in_set_dropD)

lemma quiet_sweep:
  "concat others = [] \<Longrightarrow>
   send_sweep st others s r n Unchanged cs d cm =
     (Returns,
      foldl (\<lambda>d c. case st c s of None \<Rightarrow> d | Some e \<Rightarrow> set_add c d) d cs,
      cm,
      concat (map (\<lambda>c. case st c s of
                          None \<Rightarrow> [SendText c s]
                        | Some e \<Rightarrow> [SendTextRaised c s,
                                      LogException ''Error sending message: '' e]) cs))"
proof (induction cs arbitrary: others d)
  case Nil
  then show ?case by simp
next
  case (Cons c cs)
  have q: "concat (take 1 others) = []" "concat (drop 1 others) = []"
    using quiet_parts [OF Cons.prems] by blast+
  have "send_sweep st others s r n Unchanged (c # cs) d cm =
     (case send_sweep st (drop 1 others) s r n Unchanged cs
             (case st c s of None \<Rightarrow> d | Some e \<Rightarrow> set_add c d) cm of
        (res, d', cm', evs) \<Rightarrow>
          (res, d', cm',
           (case st c s of
              None \<Rightarrow> [SendText c s]
            | Some e \<Rightarrow> [SendTextRaised c s, LogException ''Error sending message: '' e])
           @ evs))"
    by (simp only: sweep_Cons q(1) meanwhile_Nil task_run.simps fst_conv)
  then show ?case
    using Cons.IH [OF q(2)] by (simp del: send_sweep.simps)
qed

lemma collect_one_failure:
  assumes "st f s \<noteq> None" and "\<forall>c\<in>set cs. c \<noteq> f \<longrightarrow> st c s = None"
  shows "foldl (\<lambda>d c. case st c s of None \<Rightarrow> d | Some e \<Rightarrow> set_add c d) d cs
           = (if f \<in> set cs then set_add f d else d)"
  using assms(2)
proof (induction cs arbitrary: d)
  case Nil
  then show ?case by simp
next
  case (Cons c cs)
  show ?case
  proof (cases "c = f")
    case True
    then obtain e where "st c s = Some e" using assms(1) by auto
    then show ?thesis using True Cons by (simp add: set_add_def)
  next
    case False
    then have "st c s = None" using Cons.prems by simp
    then show ?thesis using False Cons by simp
  qed
qed

lemma count_concat_map:
  "count_list (concat (map g cs)) e = sum_list (map (\<lambda>c. count_list (g c) e) cs)"
  by (induction cs) auto




lemma count_quiet_sent:
  "distinct cs \<Longrightarrow>
   count_list (concat (map (\<lambda>c. case st c s of
                          None \<Rightarrow> [SendText c s]
                        | Some e \<Rightarrow> [SendTextRaised c s,
                                      LogException ''Error sending message: '' e]) cs))
       (SendText c s)
     = (if c \<in> set cs \<and> st c s = None then 1 else 0)"
  by (induction cs) (auto split: option.splits)

lemma count_quiet_raised:
  "distinct cs \<Longrightarrow>
   count_list (concat (map (\<lambda>c. case st c s of
                          None \<Rightarrow> [SendText c s]
                        | Some e \<Rightarrow> [SendTextRaised c s,
                                      LogException ''Error sending message: '' e]) cs))
       (SendTextRaised c s)
     = (if c \<in> set cs \<and> st c s \<noteq> None then 1 else 0)"
  by (induction cs) (auto split: option.splits)

lemma broadcast_absent:
  "active_connections cm r = None \<Longrightarrow>
   broadcast_to_room st others r m cm =
     (Returns, cm, [LogWarning (''Attempted to broadcast to non-existent room: '' @ r)])"
  by (simp add: broadcast_to_room_def)


subsection \<open>Every history is a history of \<^verbatim>\<open>connect\<close> and \<^verbatim>\<open>disconnect\<close> calls\<close>

text \<open>
  A broadcast changes a consistent registry by the calls of the other tasks during its
  first loop and by the \<^verbatim>\<open>disconnect\<close> calls of its second. So every history leaves the
  registry that a history of \<^verbatim>\<open>connect\<close> and \<^verbatim>\<open>disconnect\<close> calls leaves, whose connects
  are among those of the history, in the same order.
\<close>

lemma disconnect_each_run:
  "consistent cm \<Longrightarrow> fst (snd (disconnect_each ws cm)) = task_run (map TaskDisconnect ws) cm"
proof (induction ws arbitrary: cm)
  case Nil
  then show ?case by simp
next
  case (Cons w ws)
  obtain r cm' evs where d: "disconnect w cm = (r, cm', evs)"
    by (cases "disconnect w cm") auto
  then have "r = Returns" "consistent cm'"
    using disconnect_consistent [OF Cons.prems, of w] by simp_all
  then show ?case using d Cons.IH [of cm']
    by (auto split: prod.splits)
qed

lemma disconnect_each_returns:
  "consistent cm \<Longrightarrow> fst (disconnect_each ws cm) = Returns"
proof (induction ws arbitrary: cm)
  case Nil
  then show ?case by simp
next
  case (Cons w ws)
  obtain r cm' evs where d: "disconnect w cm = (r, cm', evs)"
    by (cases "disconnect w cm") auto
  then have "r = Returns" "consistent cm'"
    using disconnect_consistent [OF Cons.prems, of w] by simp_all
  then show ?case using d Cons.IH [of cm']
    by (auto split: prod.splits)
qed

lemma broadcast_flat:
  assumes "consistent cm"
  shows "\<exists>k ws. fst (snd (broadcast_to_room st others r m cm))
           = task_run (concat (take k others) @ map TaskDisconnect ws) cm"
proof (cases "active_connections cm r")
  case None
  then have "fst (snd (broadcast_to_room st others r m cm))
           = task_run (concat (take 0 others) @ map TaskDisconnect []) cm"
    by (simp add: broadcast_absent)
  then show ?thesis by blast
next
  case (Some c)
  obtain res d cm' evs where
    sw: "send_sweep st others (model_dump_json m) r (length c) Unchanged c [] cm = (res, d, cm', evs)"
    by (metis prod_cases4)
  obtain k where k: "cm' = task_run (concat (take k others)) cm"
    using sweep_registry [of st others "model_dump_json m" r "length c" Unchanged c "[]" cm] sw
    by auto
  have c': "consistent cm'" unfolding k using assms by (rule task_run_consistent)
  show ?thesis
  proof (cases res)
    case Returns
    have "fst (snd (broadcast_to_room st others r m cm)) = fst (snd (disconnect_each d cm'))"
      using Some sw Returns by (simp add: broadcast_to_room_def case_prod_beta)
    then have "fst (snd (broadcast_to_room st others r m cm))
           = task_run (concat (take k others) @ map TaskDisconnect d) cm"
      using disconnect_each_run [OF c', of d] k by (simp add: task_run_append)
    then show ?thesis by blast
  next
    case (Raises x)
    have "fst (snd (broadcast_to_room st others r m cm)) = cm'"
      using Some sw Raises by (simp add: broadcast_to_room_def)
    then have "fst (snd (broadcast_to_room st others r m cm))
           = task_run (concat (take k others) @ map TaskDisconnect []) cm"
      using k by simp
    then show ?thesis by blast
  qed
qed

lemma connects_Cons: "connects (c # cs) = connects [c] @ connects cs"
  by (cases c) simp_all

lemma perform_flat:
  assumes "consistent cm"
  shows "\<exists>ts. fst (snd (perform c cm)) = task_run ts cm
            \<and> subseq (task_connects ts) (connects [c])"
proof (cases c)
  case (Connect ok w u r)
  then have "fst (snd (perform c cm)) = task_run [TaskConnect ok w u r] cm
      \<and> subseq (task_connects [TaskConnect ok w u r]) (connects [c])"
    by simp
  then show ?thesis by blast
next
  case (Disconnect w)
  then have "fst (snd (perform c cm)) = task_run [TaskDisconnect w] cm
      \<and> subseq (task_connects [TaskDisconnect w]) (connects [c])"
    by simp
  then show ?thesis by blast
next
  case (Broadcast st others r m)
  obtain k ws where f: "fst (snd (broadcast_to_room st others r m cm))
           = task_run (concat (take k others) @ map TaskDisconnect ws) cm"
    using broadcast_flat [OF assms] by blast
  have "concat others = concat (take k others) @ concat (drop k others)"
    by (metis append_take_drop_id concat_append)
  then have "task_connects (concat others)
      = task_connects (concat (take k others) @ map TaskDisconnect ws)
        @ task_connects (concat (drop k others))"
    by (simp add: task_connects_append task_connects_disconnects)
  moreover have "subseq (task_connects (concat (take k others) @ map TaskDisconnect ws))
      (task_connects (concat (take k others) @ map TaskDisconnect ws)
        @ task_connects (concat (drop k others)))"
    by (rule subseq_rev_drop_many) (rule subseq_order.order_refl)
  ultimately have "subseq (task_connects (concat (take k others) @ map TaskDisconnect ws))
      (connects [c])"
    using Broadcast by simp
  then show ?thesis using f Broadcast by auto
qed

lemma run_flat:
  assumes "consistent cm"
  shows "\<exists>ts. run cs cm = task_run ts cm \<and> subseq (task_connects ts) (connects cs)"
  using assms
proof (induction cs arbitrary: cm)
  case Nil
  have "run [] cm = task_run [] cm \<and> subseq (task_connects []) (connects [])" by simp
  then show ?case by blast
next
  case (Cons c cs)
  obtain ts1 where 1: "fst (snd (perform c cm)) = task_run ts1 cm"
      "subseq (task_connects ts1) (connects [c])"
    using perform_flat [OF Cons.prems] by blast
  have "consistent (task_run ts1 cm)" using Cons.prems by (rule task_run_consistent)
  then obtain ts2 where 2: "run cs (task_run ts1 cm) = task_run ts2 (task_run ts1 cm)"
      "subseq (task_connects ts2) (connects cs)"
    using Cons.IH by blast
  have "run (c # cs) cm = task_run (ts1 @ ts2) cm"
    using 1(1) 2(1) by (simp add: task_run_append)
  moreover have "subseq (task_connects (ts1 @ ts2)) (connects (c # cs))"
    using 1(2) 2(2) connects_Cons [of c cs]
    by (simp add: task_connects_append list_emb_append_mono)
  ultimately show ?case by blast
qed

lemma subseq_distinct: "subseq xs ys \<Longrightarrow> distinct ys \<Longrightarrow> distinct xs"
  by (induction rule: list_emb.induct) (auto dest: list_emb_set)

lemma subseq_subset: "subseq xs ys \<Longrightarrow> set xs \<subseteq> set ys"
  by (auto dest: list_emb_set)

subsection \<open>What every history keeps\<close>

lemma run_consistent:
  "consistent cm \<Longrightarrow> consistent (run cs cm)"
  using run_flat [of cm cs] task_run_consistent by auto

lemma run_seated:
  "consistent cm \<Longrightarrow> seated cm \<Longrightarrow> seated (run cs cm)"
  using run_flat [of cm cs] task_run_shape by auto

lemma run_one_room:
  assumes "consistent cm" and "one_room cm"
    and "distinct (connect_handles cs)"
    and "set (connect_handles cs) \<inter> seats cm = {}"
  shows "one_room (run cs cm)"
proof -
  obtain ts where ts: "run cs cm = task_run ts cm" "subseq (task_connects ts) (connects cs)"
    using run_flat [OF assms(1)] by blast
  have s: "subseq (map fst (task_connects ts)) (connect_handles cs)"
    unfolding connect_handles_def using ts(2) by (rule subseq_map)
  have 1: "distinct (map fst (task_connects ts))"
    using s assms(3) by (rule subseq_distinct)
  have "set (map fst (task_connects ts)) \<subseteq> set (connect_handles cs)"
    using s by (rule subseq_subset)
  then have 2: "fst ` set (task_connects ts) \<inter> seats cm = {}"
    using assms(4) by auto
  show ?thesis unfolding ts(1) using assms(1,2) 1 2 by (rule task_run_one_room)
qed

lemma run_placed:
  assumes "consistent cm" and "placed cm"
    and "distinct (connect_handles cs)"
    and "set (connect_handles cs) \<inter> dom (user_sessions cm) = {}"
    and "[] \<notin> set (connect_rooms cs)"
    and "distinct (connect_objects cs)"
    and "set (connect_objects cs) \<inter> session_objects cm = {}"
  shows "placed (run cs cm)"
proof -
  obtain ts where ts: "run cs cm = task_run ts cm" "subseq (task_connects ts) (connects cs)"
    using run_flat [OF assms(1)] by blast
  have h: "subseq (map fst (task_connects ts)) (connect_handles cs)"
    unfolding connect_handles_def using ts(2) by (rule subseq_map)
  have r: "subseq (map (\<lambda>(w, u, r). r) (task_connects ts)) (connect_rooms cs)"
    unfolding connect_rooms_def using ts(2) by (rule subseq_map)
  have k: "subseq (map (\<lambda>(w, u, r). usr_object u) (task_connects ts)) (connect_objects cs)"
    unfolding connect_objects_def using ts(2) by (rule subseq_map)
  have 3: "distinct (map fst (task_connects ts))"
    using h assms(3) by (rule subseq_distinct)
  have 4: "fst ` set (task_connects ts) \<inter> dom (user_sessions cm) = {}"
    using subseq_subset [OF h] assms(4) by auto
  have 5: "[] \<notin> (\<lambda>(w, u, r). r) ` set (task_connects ts)"
    using subseq_subset [OF r] assms(5) by auto
  have 6: "distinct (map (\<lambda>(w, u, r). usr_object u) (task_connects ts))"
    using k assms(6) by (rule subseq_distinct)
  have 7: "(\<lambda>(w, u, r). usr_object u) ` set (task_connects ts) \<inter> session_objects cm = {}"
    using subseq_subset [OF k] assms(7) by auto
  show ?thesis unfolding ts(1) using assms(1,2) 3 4 5 6 7 by (rule task_run_placed)
qed

lemma run_counted:
  assumes "consistent cm" and "placed cm" and "counted cm"
    and "distinct (connect_handles cs)"
    and "set (connect_handles cs) \<inter> dom (user_sessions cm) = {}"
    and "[] \<notin> set (connect_rooms cs)"
    and "distinct (connect_objects cs)"
    and "set (connect_objects cs) \<inter> session_objects cm = {}"
    and "distinct (connect_user_ids cs)"
    and "set (connect_user_ids cs) \<inter> all_session_ids cm = {}"
  shows "placed (run cs cm) \<and> counted (run cs cm)"
proof -
  obtain ts where ts: "run cs cm = task_run ts cm" "subseq (task_connects ts) (connects cs)"
    using run_flat [OF assms(1)] by blast
  have h: "subseq (map fst (task_connects ts)) (connect_handles cs)"
    unfolding connect_handles_def using ts(2) by (rule subseq_map)
  have r: "subseq (map (\<lambda>(w, u, r). r) (task_connects ts)) (connect_rooms cs)"
    unfolding connect_rooms_def using ts(2) by (rule subseq_map)
  have k: "subseq (map (\<lambda>(w, u, r). usr_object u) (task_connects ts)) (connect_objects cs)"
    unfolding connect_objects_def using ts(2) by (rule subseq_map)
  have i: "subseq (map (\<lambda>(w, u, r). usr_id u) (task_connects ts)) (connect_user_ids cs)"
    unfolding connect_user_ids_def using ts(2) by (rule subseq_map)
  have 4: "distinct (map fst (task_connects ts))"
    using h assms(4) by (rule subseq_distinct)
  have 5: "fst ` set (task_connects ts) \<inter> dom (user_sessions cm) = {}"
    using subseq_subset [OF h] assms(5) by auto
  have 6: "[] \<notin> (\<lambda>(w, u, r). r) ` set (task_connects ts)"
    using subseq_subset [OF r] assms(6) by auto
  have 7: "distinct (map (\<lambda>(w, u, r). usr_object u) (task_connects ts))"
    using k assms(7) by (rule subseq_distinct)
  have 8: "(\<lambda>(w, u, r). usr_object u) ` set (task_connects ts) \<inter> session_objects cm = {}"
    using subseq_subset [OF k] assms(8) by auto
  have 9: "distinct (map (\<lambda>(w, u, r). usr_id u) (task_connects ts))"
    using i assms(9) by (rule subseq_distinct)
  have 10: "(\<lambda>(w, u, r). usr_id u) ` set (task_connects ts) \<inter> all_session_ids cm = {}"
    using subseq_subset [OF i] assms(10) by auto
  show ?thesis unfolding ts(1) using assms(1,2,3) 4 5 6 7 8 9 10 by (rule task_run_counted)
qed

section \<open>Properties of the listener loop\<close>

lemma after_colon_split:
  "CHR '':'' \<notin> set pre \<Longrightarrow> after_colon (pre @ CHR '':'' # room) = Some room"
proof -
  have "dropWhile (\<lambda>c. c \<noteq> CHR '':'') (pre @ CHR '':'' # room) = CHR '':'' # room"
    if "CHR '':'' \<notin> set pre"
    using that by (induction pre) auto
  then show "CHR '':'' \<notin> set pre \<Longrightarrow> after_colon (pre @ CHR '':'' # room) = Some room"
    by (simp add: after_colon_def)
qed

lemma after_colon_none:
  "CHR '':'' \<notin> set channel \<Longrightarrow> after_colon channel = None"
proof -
  assume "CHR '':'' \<notin> set channel"
  then have "dropWhile (\<lambda>c. c \<noteq> CHR '':'') channel = []"
    by (induction channel) auto
  then show ?thesis by (simp add: after_colon_def del: dropWhile_eq_Nil_conv)
qed

lemma listen_append:
  "listen h decode (map Event evs @ rest) cm =
     (case listen h decode (map Event evs) cm of
        (l, cm', out) \<Rightarrow>
          (case listen h decode rest cm' of (l2, cm2, out2) \<Rightarrow> (l2, cm2, out @ out2)))"
proof (induction evs arbitrary: cm)
  case Nil
  then show ?case by simp
next
  case (Cons ev evs)
  show ?case
  proof (cases "ev_type ev = ''message''")
    case True
    obtain cm1 o1 where p: "process_message h decode ev cm = (cm1, o1)"
      by (cases "process_message h decode ev cm") auto
    show ?thesis using True p Cons.IH [of cm1]
      by (simp split: prod.splits)
  next
    case False
    then show ?thesis using Cons.IH [of cm] by simp
  qed
qed

lemma listen_awaits:
  "fst (listen h decode (map Event evs) cm) = Awaiting"
proof (induction evs arbitrary: cm)
  case Nil
  then show ?case by simp
next
  case (Cons ev evs)
  show ?case
  proof (cases "ev_type ev = ''message''")
    case True
    obtain cm1 o1 where p: "process_message h decode ev cm = (cm1, o1)"
      by (cases "process_message h decode ev cm") auto
    show ?thesis using True p Cons.IH [of cm1]
      by (simp add: case_prod_beta)
  next
    case False
    then show ?thesis using Cons.IH [of cm] by simp
  qed
qed

section \<open>What a session publishes\<close>

lemma published_append [simp]: "published (xs @ ys) = published xs @ published ys"
  by (induction xs rule: published.induct) simp_all

lemma published_disconnect [simp]: "published (snd (snd (disconnect w cm))) = []"
  by (auto simp: disconnect_def split: option.splits prod.splits outcome.splits)

lemma publish_message_working:
  assumes "redis_client rm \<noteq> None" and "publish = (\<lambda>ch s. None)"
  shows "publish_message publish room_id m rm
     = (Returns, rm, [Publish (''room:'' @ room_id) (model_dump_json m),
                      LogDebug (''Published message to '' @ ''room:'' @ room_id)])"
  using assms by (auto simp: publish_message_def Let_def)

lemma receive_loop_published:
  assumes "redis_client (redis_manager app) \<noteq> None" and "publishes w = (\<lambda>ch s. None)"
  shows "published (snd (snd (receive_loop w ws uid un room
            (map (\<lambda>(d, t). Text d t) texts @ [final]) app)))
     = map (\<lambda>(d, t). (''room:'' @ room, model_dump_json (session_message uid un room d CHAT t)))
         texts
       @ (case final of
            WebSocketDisconnect t \<Rightarrow>
              (if fst (disconnect ws (connection_manager app)) = Returns
               then [(''room:'' @ room,
                      model_dump_json
                        (session_message uid un room (un @ '' left the room'') LEAVE t))]
               else [])
          | Text d t \<Rightarrow>
              [(''room:'' @ room, model_dump_json (session_message uid un room d CHAT t))]
          | ReceiveRaises e \<Rightarrow> [])"
  using assms
proof (induction texts arbitrary: app)
  case Nil
  obtain r cm evs where d: "disconnect ws (connection_manager app) = (r, cm, evs)"
    by (cases "disconnect ws (connection_manager app)") auto
  have p: "published evs = []" using published_disconnect [of ws "connection_manager app"] d by simp
  show ?case
  proof (cases final)
    case (Text d' t)
    then show ?thesis
      using Nil by (simp add: publish_message_working session_message_def)
  next
    case (WebSocketDisconnect t)
    then show ?thesis
      using Nil d p by (cases r) (simp_all add: publish_message_working session_message_def)
  next
    case (ReceiveRaises e)
    then show ?thesis using d p by (cases r) simp_all
  qed
next
  case (Cons x texts)
  obtain d t where x: "x = (d, t)" by (cases x)
  have same: "app\<lparr>redis_manager := redis_manager app\<rparr> = app" by simp
  show ?case
    using Cons.prems Cons.IH [of app] x
    by (simp add: publish_message_working same session_message_def case_prod_beta)
qed


lemma subscribe_to_room_client:
  "redis_client (fst (snd (subscribe_to_room subscribe room_id rm))) = redis_client rm
   \<and> published (snd (snd (subscribe_to_room subscribe room_id rm))) = []"
  by (simp add: subscribe_to_room_def Let_def split: option.splits)

section \<open>Reading back what \<^verbatim>\<open>model_dump_json\<close> writes\<close>

lemma digit_value_digit_char: "d < 10 \<Longrightarrow> digit_value (digit_char d) = Some d"
proof -
  assume "d < 10"
  then have "d = 0 \<or> d = 1 \<or> d = 2 \<or> d = 3 \<or> d = 4 \<or> d = 5 \<or> d = 6 \<or> d = 7 \<or> d = 8 \<or> d = 9"
    by arith
  then show ?thesis
    by (elim disjE) (simp_all add: digit_char_def digit_value_def)
qed

lemma hex_value_hex_char: "n < 16 \<Longrightarrow> hex_value (hex_char n) = Some n"
proof -
  assume "n < 16"
  then have "n = 0 \<or> n = 1 \<or> n = 2 \<or> n = 3 \<or> n = 4 \<or> n = 5 \<or> n = 6 \<or> n = 7 \<or> n = 8 \<or> n = 9
      \<or> n = 10 \<or> n = 11 \<or> n = 12 \<or> n = 13 \<or> n = 14 \<or> n = 15"
    by arith
  then show ?thesis
    by (elim disjE) (simp_all add: hex_char_def hex_value_def)
qed

lemma length_zero_pad [simp]: "length (zero_pad w n) = w"
  by (induction w arbitrary: n) simp_all

lemma digits_value_append:
  "digits_value acc (xs @ ys) =
     (case digits_value acc xs of None \<Rightarrow> None | Some a \<Rightarrow> digits_value a ys)"
  by (induction xs arbitrary: acc) (simp_all split: option.splits)

lemma digits_value_zero_pad:
  "digits_value acc (zero_pad w n) = Some (acc * 10 ^ w + n mod 10 ^ w)"
proof (induction w arbitrary: n)
  case 0
  then show ?case by simp
next
  case (Suc w)
  have "n mod 10 < 10" by simp
  then have d: "digit_value (digit_char (n mod 10)) = Some (n mod 10)"
    by (rule digit_value_digit_char)
  have "10 * (n div 10 mod 10 ^ w) + n mod 10 = n mod (10 * 10 ^ w)"
    by (metis mod_mult2_eq)
  then show ?case
    by (simp add: digits_value_append Suc.IH d algebra_simps)
qed


lemma iso_parts:
  fixes a b c d e f t :: string
  assumes "length a = 4" "length b = 2" "length c = 2" "length d = 2" "length e = 2" "length f = 2"
  defines "s \<equiv> a @ CHR ''-'' # b @ CHR ''-'' # c @ CHR ''T'' # d @ CHR '':'' # e @ CHR '':'' # f @ t"
  shows "take 4 s = a" "take 2 (drop 5 s) = b" "take 2 (drop 8 s) = c" "take 2 (drop 11 s) = d"
    "take 2 (drop 14 s) = e" "take 2 (drop 17 s) = f" "drop 20 s = drop 1 t"
    "length s = 19 + length t"
    "s ! 4 = CHR ''-''" "s ! 7 = CHR ''-''" "s ! 10 = CHR ''T''" "s ! 13 = CHR '':''"
    "s ! 16 = CHR '':''" "t \<noteq> [] \<Longrightarrow> s ! 19 = hd t"
  using assms(1-6) unfolding s_def
  by (simp_all add: nth_append nth_Cons' hd_conv_nth)


lemma digits_value_zero_pad_0:
  "n < 10 ^ w \<Longrightarrow> digits_value 0 (zero_pad w n) = Some n"
  by (simp add: digits_value_zero_pad)

lemma parse_datetime_isoformat:
  assumes "valid_datetime v"
  shows "parse_datetime (isoformat v) = Inr v"
proof -
  define a where "a = zero_pad 4 (dt_year v)"
  define b where "b = zero_pad 2 (dt_month v)"
  define c where "c = zero_pad 2 (dt_day v)"
  define d where "d = zero_pad 2 (dt_hour v)"
  define e where "e = zero_pad 2 (dt_minute v)"
  define f where "f = zero_pad 2 (dt_second v)"
  define t where "t = (if dt_microsecond v = 0 then [] else CHR ''.'' # zero_pad 6 (dt_microsecond v))"
  have len: "length a = 4" "length b = 2" "length c = 2" "length d = 2" "length e = 2"
    "length f = 2"
    by (simp_all add: a_def b_def c_def d_def e_def f_def)
  have s: "isoformat v
      = a @ CHR ''-'' # b @ CHR ''-'' # c @ CHR ''T'' # d @ CHR '':'' # e @ CHR '':'' # f @ t"
    by (simp add: isoformat_def a_def b_def c_def d_def e_def f_def t_def)
  note p = iso_parts [OF len, of t, folded s]
  have dim: "days_in_month (dt_year v) (dt_month v) \<le> 31"
    by (simp add: days_in_month_def)
  have bounds: "dt_year v < 10 ^ 4" "dt_month v < 10 ^ 2" "dt_day v < 10 ^ 2"
    "dt_hour v < 10 ^ 2" "dt_minute v < 10 ^ 2" "dt_second v < 10 ^ 2"
    "dt_microsecond v < 10 ^ 6"
    using assms dim unfolding valid_datetime_def by simp_all
  have shape: "iso_shape (isoformat v)"
    unfolding iso_shape_def using p by (simp add: t_def)
  have us: "digits_value 0 (drop (Suc 0) t) = Some (dt_microsecond v)"
    using bounds(7) by (simp add: t_def digits_value_zero_pad_0)
  have vals: "digits_value 0 a = Some (dt_year v)" "digits_value 0 b = Some (dt_month v)"
    "digits_value 0 c = Some (dt_day v)" "digits_value 0 d = Some (dt_hour v)"
    "digits_value 0 e = Some (dt_minute v)" "digits_value 0 f = Some (dt_second v)"
    unfolding a_def b_def c_def d_def e_def f_def
    using bounds by (simp_all add: digits_value_zero_pad_0)
  have whole: "\<lparr>dt_year = dt_year v, dt_month = dt_month v, dt_day = dt_day v,
      dt_hour = dt_hour v, dt_minute = dt_minute v, dt_second = dt_second v,
      dt_microsecond = dt_microsecond v\<rparr> = v"
    by simp
  show ?thesis
    unfolding parse_datetime_def
    using shape assms by (simp add: p vals us whole Let_def)
qed


lemma json_string_body_quote [simp]:
  "json_string_body (quote_char # rest) = Inr ([], rest)"
  by (cases rest) simp_all

lemma unicode_escape_control:
  assumes "of_char c < (32::nat)"
  shows "unicode_escape [CHR ''0'', CHR ''0'', hex_char (of_char c div 16),
                         hex_char (of_char c mod 16)] = Inr c"
proof -
  let ?n = "of_char c :: nat"
  have h: "hex_value (hex_char (?n div 16)) = Some (?n div 16)"
    "hex_value (hex_char (?n mod 16)) = Some (?n mod 16)"
    using assms by (simp_all add: hex_value_hex_char)
  have z: "hex_value CHR ''0'' = Some 0" by (simp add: hex_value_def)
  have "?n div 16 * 16 + ?n mod 16 = ?n" by simp
  then show ?thesis using assms
    by (simp add: unicode_escape_def h z)
qed

lemma json_string_body_escape:
  assumes "T \<noteq> []"
  shows "json_string_body (json_escape c @ T) = prepend c (json_string_body T)"
proof -
  obtain t ts where T: "T = t # ts" using assms by (cases T) auto
  consider (is_quote) "c = quote_char" | (is_backslash) "c = backslash"
    | (is_short) "c \<noteq> quote_char" "c \<noteq> backslash"
        "c = CHR 0x08 \<or> c = CHR 0x0C \<or> c = CHR 0x0A \<or> c = CHR 0x0D \<or> c = CHR 0x09"
    | (is_control) "c \<noteq> quote_char" "c \<noteq> backslash" "c \<noteq> CHR 0x08" "c \<noteq> CHR 0x0C"
        "c \<noteq> CHR 0x0A" "c \<noteq> CHR 0x0D" "c \<noteq> CHR 0x09" "of_char c < (32::nat)"
    | (is_plain) "c \<noteq> quote_char" "c \<noteq> backslash" "c \<noteq> CHR 0x08" "c \<noteq> CHR 0x0C"
        "c \<noteq> CHR 0x0A" "c \<noteq> CHR 0x0D" "c \<noteq> CHR 0x09" "\<not> of_char c < (32::nat)"
    by blast
  then show ?thesis
  proof cases
    case is_quote
    then show ?thesis
      by (simp add: T json_escape_def simple_escape_def quote_char_def backslash_def)
  next
    case is_backslash
    then show ?thesis
      by (simp add: T json_escape_def simple_escape_def quote_char_def backslash_def)
  next
    case is_short
    then show ?thesis
      by (auto simp: T json_escape_def simple_escape_def quote_char_def backslash_def)
  next
    case is_control
    then show ?thesis
      using unicode_escape_control [of c]
      by (simp add: T json_escape_def quote_char_def backslash_def)
  next
    case is_plain
    then show ?thesis
      by (simp add: T json_escape_def)
  qed
qed

lemma json_string_body_escaped:
  "json_string_body (concat (map json_escape s) @ quote_char # rest) = Inr (s, rest)"
proof (induction s)
  case Nil
  then show ?case by simp
next
  case (Cons c s)
  have "json_string_body (json_escape c @ (concat (map json_escape s) @ quote_char # rest))
      = prepend c (json_string_body (concat (map json_escape s) @ quote_char # rest))"
    by (rule json_string_body_escape) simp
  then show ?case using Cons.IH by (simp add: prepend_def)
qed


lemma skip_ws_no_space: "\<not> is_space c \<Longrightarrow> skip_ws (c # s) = c # s"
  by (simp add: skip_ws_def)

lemma no_space [simp]:
  "\<not> is_space quote_char" "\<not> is_space CHR '':''" "\<not> is_space CHR '',''"
  "\<not> is_space CHR ''}''" "\<not> is_space CHR ''{''"
  by (simp_all add: is_space_def quote_char_def)

lemma json_field_Cons:
  "json_field k v
     = quote_char # concat (map json_escape k)
       @ quote_char # CHR '':'' # quote_char # concat (map json_escape v) @ [quote_char]"
  by (simp add: json_field_def json_string_def)

lemma json_member_field:
  "json_member (json_field k v @ rest) = Inr ((k, v), skip_ws rest)"
  by (simp add: json_field_Cons json_member_def json_literal_def json_string_body_escaped
      skip_ws_no_space)

lemma json_members_last:
  "json_members (Suc n) (json_field k v @ ''}'') = Inr [(k, v)]"
  by (simp add: json_member_field skip_ws_no_space skip_ws_def)

lemma json_members_step:
  "json_members (Suc n) (json_field k v @ CHR '','' # json_field k' v' @ etc)
     = (case json_members n (json_field k' v' @ etc) of
          Inl e \<Rightarrow> Inl e
        | Inr kvs \<Rightarrow> Inr ((k, v) # kvs))"
proof -
  have q: "json_field k' v' @ etc = quote_char # tl (json_field k' v' @ etc)"
    by (simp add: json_field_Cons)
  have "skip_ws (json_field k' v' @ etc) = json_field k' v' @ etc"
    by (subst q, subst (2) q) (simp add: skip_ws_no_space)
  then show ?thesis
    by (simp add: json_member_field skip_ws_no_space)
qed

lemma json_loads_model_dump_json:
  "json_loads (model_dump_json m)
     = Inr [(''user_id'', msg_user_id m), (''username'', msg_username m),
            (''room_id'', msg_room_id m), (''content'', msg_content m),
            (''message_type'', MessageType_value (msg_message_type m)),
            (''timestamp'', isoformat (msg_timestamp m))]"
proof -
  define body where "body =
     json_field ''user_id'' (msg_user_id m)
     @ CHR '','' # json_field ''username'' (msg_username m)
     @ CHR '','' # json_field ''room_id'' (msg_room_id m)
     @ CHR '','' # json_field ''content'' (msg_content m)
     @ CHR '','' # json_field ''message_type'' (MessageType_value (msg_message_type m))
     @ CHR '','' # json_field ''timestamp'' (isoformat (msg_timestamp m)) @ ''}''"
  have s: "model_dump_json m = CHR ''{'' # body"
    by (simp add: model_dump_json_def body_def)
  have q: "body = quote_char # tl body"
    by (simp add: body_def json_field_Cons)
  have "6 \<le> length body" by (simp add: body_def json_field_Cons)
  then obtain k where "length body = 6 + k" by (metis le_iff_add)
  then have n: "length (model_dump_json m) = Suc (Suc (Suc (Suc (Suc (Suc (Suc k))))))"
    by (simp add: s eval_nat_numeral)
  have members: "json_members (Suc (Suc (Suc (Suc (Suc (Suc (Suc k))))))) body
     = Inr [(''user_id'', msg_user_id m), (''username'', msg_username m),
            (''room_id'', msg_room_id m), (''content'', msg_content m),
            (''message_type'', MessageType_value (msg_message_type m)),
            (''timestamp'', isoformat (msg_timestamp m))]"
    unfolding body_def
    by (simp only: json_members_step json_members_last sum.case)
  have "json_loads (model_dump_json m) = json_members (length (model_dump_json m)) body"
    unfolding s using q
  proof -
    obtain b where b: "body = quote_char # b" using q by blast
    have "quote_char \<noteq> CHR ''}''" by (simp add: quote_char_def)
    then show "json_loads (CHR ''{'' # body) = json_members (length (CHR ''{'' # body)) body"
      unfolding b by (simp add: json_loads_def skip_ws_no_space del: json_members.simps)
  qed
  then show ?thesis using n members by simp
qed


lemma MessageType_of_value_value: "MessageType_of_value (MessageType_value t) = Some t"
  by (cases t) simp_all

section \<open>The claims about the registry\<close>

lemmas registry_eval = connect_def assign_def disconnect_def room_cleanup_def init_manager_def
  set_add_def set_discard_def Let_def fmt_room_def alice_def bob_def carol_def dave_def
  alice_again_def three_in_general_def no_member_set_def same_user_twice_def
  empty_room_id_def shared_user_def busy_day_def broken_1_def broken_2_def dave_joins_def
  broadcast_to_room_def room_connections_def get_room_member_count_def get_user_info_def
  connect_handles_def connect_rooms_def connect_objects_def connect_user_ids_def

subsection \<open>C6: what \<^verbatim>\<open>disconnect\<close> does\<close>

text \<open>
  Claim C6, as amended. For every registry and every websocket: when the websocket has
  no session, \<^verbatim>\<open>disconnect\<close> returns and the registry is unchanged. When it has a session
  whose room id is not empty and has an entry in both room dictionaries, the call
  returns, the websocket has left that room's connection set and the user's id its
  member set, both entries of the room are deleted when no other connection is left, no
  other room is touched, and the session is deleted. When the session's room id is
  \<^verbatim>\<open>None\<close>, empty or without a connection set, only the session is deleted. The session
  is deleted last: when the room has a connection set and no member set the call raises
  \<^verbatim>\<open>KeyError\<close> after the websocket has left the connection set, and the session is still
  there.
\<close>

theorem disconnect_effect:
  "(user_sessions cm w = None \<longrightarrow> disconnect w cm = (Returns, cm, []))
   \<and> (user_sessions cm w = Some u \<and> usr_current_room u = Some r \<and> r \<noteq> []
        \<and> active_connections cm r = Some c \<and> room_members cm r = Some m \<longrightarrow>
        (case disconnect w cm of
           (res, cm', evs) \<Rightarrow>
             res = Returns
             \<and> user_sessions cm' = (user_sessions cm)(w := None)
             \<and> (\<forall>r'. r' \<noteq> r \<longrightarrow> active_connections cm' r' = active_connections cm r'
                              \<and> room_members cm' r' = room_members cm r')
             \<and> (if set c \<subseteq> {w}
                 then active_connections cm' r = None \<and> room_members cm' r = None
                 else (\<exists>c' m'. active_connections cm' r = Some c' \<and> set c' = set c - {w}
                         \<and> room_members cm' r = Some m' \<and> set m' = set m - {usr_id u}))))
   \<and> (user_sessions cm w = Some u
        \<and> (usr_current_room u = None \<or> usr_current_room u = Some []
             \<or> (\<exists>r. usr_current_room u = Some r \<and> active_connections cm r = None)) \<longrightarrow>
        fst (disconnect w cm) = Returns
        \<and> fst (snd (disconnect w cm)) = cm\<lparr>user_sessions := (user_sessions cm)(w := None)\<rparr>)
   \<and> (user_sessions cm w = Some u \<and> usr_current_room u = Some r \<and> r \<noteq> []
        \<and> active_connections cm r = Some c \<and> room_members cm r = None \<longrightarrow>
        (case disconnect w cm of
           (res, cm', evs) \<Rightarrow>
             res = Raises KeyError \<and> user_sessions cm' w = Some u
             \<and> active_connections cm' r = Some (set_discard w c)))"
proof (intro conjI impI)
  assume "user_sessions cm w = None"
  then show "disconnect w cm = (Returns, cm, [])" by (rule disconnect_unknown)
next
  assume a: "user_sessions cm w = Some u \<and> usr_current_room u = Some r \<and> r \<noteq> []
        \<and> active_connections cm r = Some c \<and> room_members cm r = Some m"
  have e: "(set_discard w c = []) = (set c \<subseteq> {w})"
    by (auto simp: set_discard_def removeAll_filter_not_eq filter_empty_conv)
  show "case disconnect w cm of
           (res, cm', evs) \<Rightarrow>
             res = Returns
             \<and> user_sessions cm' = (user_sessions cm)(w := None)
             \<and> (\<forall>r'. r' \<noteq> r \<longrightarrow> active_connections cm' r' = active_connections cm r'
                              \<and> room_members cm' r' = room_members cm r')
             \<and> (if set c \<subseteq> {w}
                 then active_connections cm' r = None \<and> room_members cm' r = None
                 else (\<exists>c' m'. active_connections cm' r = Some c' \<and> set c' = set c - {w}
                         \<and> room_members cm' r = Some m' \<and> set m' = set m - {usr_id u}))"
    using a e by (simp add: disconnect_in_room [of cm w u r c m])
next
  assume a: "user_sessions cm w = Some u
        \<and> (usr_current_room u = None \<or> usr_current_room u = Some []
             \<or> (\<exists>r. usr_current_room u = Some r \<and> active_connections cm r = None))"
  then show "fst (disconnect w cm) = Returns"
    and "fst (snd (disconnect w cm)) = cm\<lparr>user_sessions := (user_sessions cm)(w := None)\<rparr>"
    using disconnect_no_room [of cm w u] by simp_all
next
  assume a: "user_sessions cm w = Some u \<and> usr_current_room u = Some r \<and> r \<noteq> []
        \<and> active_connections cm r = Some c \<and> room_members cm r = None"
  then show "case disconnect w cm of
           (res, cm', evs) \<Rightarrow>
             res = Raises KeyError \<and> user_sessions cm' w = Some u
             \<and> active_connections cm' r = Some (set_discard w c)"
    by (simp add: disconnect_key_error [of cm w u r c])
qed

text \<open>
  The four cases at work: websocket 9 is unknown to a room of three; websocket 2 is one
  of the three; websocket 1 is alone in the room with the empty id; and websocket 1 in a
  room without a member set.
\<close>

theorem disconnect_effect_witness:
  "user_sessions (run three_in_general init_manager) 9 = None
   \<and> disconnect 9 (run three_in_general init_manager)
       = (Returns, run three_in_general init_manager, [])
   \<and> user_sessions (run three_in_general init_manager) 2
       = Some (bob\<lparr>usr_current_room := Some ''general''\<rparr>)
   \<and> active_connections (run three_in_general init_manager) ''general'' = Some [1, 2, 3]
   \<and> room_members (run three_in_general init_manager) ''general''
       = Some [''u1'', ''u2'', ''u3'']
   \<and> fst (disconnect 2 (run three_in_general init_manager)) = Returns
   \<and> user_sessions (fst (snd (disconnect 2 (run three_in_general init_manager)))) 2 = None
   \<and> user_sessions (run [Connect True 1 alice []] init_manager) 1
       = Some (alice\<lparr>usr_current_room := Some []\<rparr>)
   \<and> fst (disconnect 1 (run [Connect True 1 alice []] init_manager)) = Returns
   \<and> user_sessions no_member_set 1 = Some (alice\<lparr>usr_current_room := Some ''general''\<rparr>)
   \<and> room_members no_member_set ''general'' = None
   \<and> fst (disconnect 1 no_member_set) = Raises KeyError
   \<and> user_sessions (fst (snd (disconnect 1 no_member_set))) 1
       = Some (alice\<lparr>usr_current_room := Some ''general''\<rparr>)"
proof -
  have s3: "user_sessions (run three_in_general init_manager) 9 = None"
    "user_sessions (run three_in_general init_manager) 2
       = Some (bob\<lparr>usr_current_room := Some ''general''\<rparr>)"
    "active_connections (run three_in_general init_manager) ''general'' = Some [1, 2, 3]"
    "room_members (run three_in_general init_manager) ''general''
       = Some [''u1'', ''u2'', ''u3'']"
    by (simp_all add: registry_eval)
  have s1: "user_sessions (run [Connect True 1 alice []] init_manager) 1
       = Some (alice\<lparr>usr_current_room := Some []\<rparr>)"
    by (simp add: registry_eval)
  have s0: "user_sessions no_member_set 1 = Some (alice\<lparr>usr_current_room := Some ''general''\<rparr>)"
    "active_connections no_member_set ''general'' = Some [1]"
    "room_members no_member_set ''general'' = None"
    by (simp_all add: no_member_set_def)
  note a = disconnect_effect [of "run three_in_general init_manager" 9]
  note b = disconnect_effect [of "run three_in_general init_manager" 2
      "bob\<lparr>usr_current_room := Some ''general''\<rparr>" "''general''" "[1, 2, 3]"
      "[''u1'', ''u2'', ''u3'']"]
  note c = disconnect_effect [of "run [Connect True 1 alice []] init_manager" 1
      "alice\<lparr>usr_current_room := Some []\<rparr>"]
  note d = disconnect_effect [of no_member_set 1
      "alice\<lparr>usr_current_room := Some ''general''\<rparr>" "''general''" "[1]"]
  have "disconnect 9 (run three_in_general init_manager)
       = (Returns, run three_in_general init_manager, [])"
    using a s3(1) by blast
  moreover have "fst (disconnect 2 (run three_in_general init_manager)) = Returns
     \<and> user_sessions (fst (snd (disconnect 2 (run three_in_general init_manager)))) 2 = None"
    using b s3 by (auto split: prod.splits)
  moreover have "fst (disconnect 1 (run [Connect True 1 alice []] init_manager)) = Returns"
    using c s1 by simp
  moreover have "fst (disconnect 1 no_member_set) = Raises KeyError
     \<and> user_sessions (fst (snd (disconnect 1 no_member_set))) 1
         = Some (alice\<lparr>usr_current_room := Some ''general''\<rparr>)"
    using d s0 by (auto split: prod.splits)
  ultimately show ?thesis using s3 s1 s0 by simp
qed

text \<open>
  The claim as it was stated fails for the room with the empty id: websocket 1 has a
  session there, \<^verbatim>\<open>disconnect\<close> returns, and the websocket is still in the room's
  connection set and the user's id in its member set.
\<close>

theorem disconnect_empty_room_id_counterexample:
  "user_sessions (run [Connect True 1 alice []] init_manager) 1
     = Some (alice\<lparr>usr_current_room := Some []\<rparr>)
   \<and> active_connections (run [Connect True 1 alice []] init_manager) [] = Some [1]
   \<and> fst (disconnect 1 (run [Connect True 1 alice []] init_manager)) = Returns
   \<and> active_connections (fst (snd (disconnect 1 (run [Connect True 1 alice []] init_manager)))) []
       = Some [1]
   \<and> room_members (fst (snd (disconnect 1 (run [Connect True 1 alice []] init_manager)))) []
       = Some [''u1'']"
  by (simp add: registry_eval)

subsection \<open>C5: a broadcast stays in its room\<close>



subsection \<open>C2: one send of a broadcast fails\<close>

text \<open>
  Claim C2 says that \<^verbatim>\<open>broadcast_to_room\<close> tries every connection of the room, that
  the failure of one send never keeps another connection from being tried, and that the
  connection whose send raised is disconnected after the loop; the docstring of the
  function says that it sends to all connections of the room. The code does not keep
  that when another task changes the room's connection set while a send is awaited,
  because the first loop walks the set itself. The room \<^verbatim>\<open>general\<close> holds the
  websockets 1, 2 and 3, visited in this order, and the send to websocket 1 raises.
  While the send to websocket 2 is awaited, the task of a new request connects
  websocket 4 to \<^verbatim>\<open>general\<close>. Then the \<^verbatim>\<open>for\<close> statement raises \<^verbatim>\<open>RuntimeError\<close>, which
  leaves \<^verbatim>\<open>broadcast_to_room\<close>: websocket 3 is never tried, the second loop does
  not run, and websocket 1 still has its session.
\<close>

theorem broadcast_cut_short:
  "active_connections (run three_in_general init_manager) ''general'' = Some [1, 2, 3]
   \<and> broken_1 1 (model_dump_json hello) = Some (Failure ''closed'')
   \<and> broken_1 2 (model_dump_json hello) = None
   \<and> broken_1 3 (model_dump_json hello) = None
   \<and> fst (broadcast_to_room broken_1 dave_joins ''general'' hello
            (run three_in_general init_manager)) = Raises RuntimeError
   \<and> snd (snd (broadcast_to_room broken_1 dave_joins ''general'' hello
                 (run three_in_general init_manager)))
       = [SendTextRaised 1 (model_dump_json hello),
          LogException ''Error sending message: '' (Failure ''closed''),
          SendText 2 (model_dump_json hello)]
   \<and> get_user_info 1
        (fst (snd (broadcast_to_room broken_1 dave_joins ''general'' hello
                     (run three_in_general init_manager))))
       = Some (alice\<lparr>usr_current_room := Some ''general''\<rparr>)
   \<and> active_connections
        (fst (snd (broadcast_to_room broken_1 dave_joins ''general'' hello
                     (run three_in_general init_manager)))) ''general''
       = Some [1, 2, 3, 4]"
proof -
  have a: "active_connections (run three_in_general init_manager) ''general'' = Some [1, 2, 3]"
    by (simp add: registry_eval)
  have b: "broadcast_to_room broken_1 dave_joins ''general'' hello
             (run three_in_general init_manager)
       = (Raises RuntimeError,
          fst (snd (connect True 4 dave ''general'' (run three_in_general init_manager))),
          [SendTextRaised 1 (model_dump_json hello),
           LogException ''Error sending message: '' (Failure ''closed''),
           SendText 2 (model_dump_json hello)])"
    by (simp add: broadcast_to_room_def a broken_1_def dave_joins_def)
       (simp add: registry_eval)
  show ?thesis
    unfolding b by (simp add: registry_eval)
qed

subsection \<open>A broadcast that no other task disturbs\<close>

text \<open>
  What does hold when one send of a broadcast fails. Take a consistent registry, which
  every registry that a history of calls produces is (lemma \<open>run_consistent\<close>), in
  whatever order its sets are visited, and let no other task run during the sends. Let
  room \<open>r\<close> hold the connections \<open>conns\<close>, and let the send to exactly one of them, \<open>f\<close>,
  raise. Then the first loop of \<^verbatim>\<open>broadcast_to_room\<close> tries every connection of the room
  once, each connection other than \<open>f\<close> is sent the serialized message exactly once and
  \<open>f\<close> never, \<open>f\<close> alone is collected, the call goes on to \<^verbatim>\<open>disconnect(f)\<close> after the
  loop and returns, and \<^verbatim>\<open>get_user_info(f)\<close> is \<^verbatim>\<open>None\<close> afterwards.
\<close>

theorem broadcast_one_failure:
  assumes "consistent cm"
    and "active_connections cm r = Some conns"
    and "f \<in> set conns"
    and "st f (model_dump_json m) \<noteq> None"
    and "\<forall>c\<in>set conns. c \<noteq> f \<longrightarrow> st c (model_dump_json m) = None"
    and "concat others = []"
  shows "\<exists>evs evs' cm'.
      send_sweep st others (model_dump_json m) r (length conns) Unchanged conns [] cm
        = (Returns, [f], cm, evs)
      \<and> (\<forall>c\<in>set conns. count_list evs (SendText c (model_dump_json m))
                          + count_list evs (SendTextRaised c (model_dump_json m)) = 1)
      \<and> (\<forall>c\<in>set conns. c \<noteq> f \<longrightarrow> count_list evs (SendText c (model_dump_json m)) = 1)
      \<and> count_list evs (SendText f (model_dump_json m)) = 0
      \<and> disconnect f cm = (Returns, cm', evs')
      \<and> broadcast_to_room st others r m cm = (Returns, cm', evs @ evs')
      \<and> get_user_info f cm' = None"
proof -
  let ?s = "model_dump_json m"
  let ?evs = "concat (map (\<lambda>c. case st c ?s of
                          None \<Rightarrow> [SendText c ?s]
                        | Some e \<Rightarrow> [SendTextRaised c ?s,
                                      LogException ''Error sending message: '' e]) conns)"
  have dist: "distinct conns" using assms(1,2) unfolding consistent_def by blast
  have "foldl (\<lambda>d c. case st c ?s of None \<Rightarrow> d | Some e \<Rightarrow> set_add c d) [] conns = [f]"
    using collect_one_failure [of st f ?s conns "[]"] assms(3,4,5) by (simp add: set_add_def)
  then have sw: "send_sweep st others ?s r (length conns) Unchanged conns [] cm
      = (Returns, [f], cm, ?evs)"
    using quiet_sweep [OF assms(6), of st ?s r "length conns" conns "[]" cm] by simp
  obtain res cm' evs' where dc: "disconnect f cm = (res, cm', evs')"
    by (cases "disconnect f cm") auto
  have res: "res = Returns" using disconnect_consistent [OF assms(1), of f] dc by simp
  have gone: "get_user_info f cm' = None"
    using disconnect_sessions [OF assms(1), of f] dc by (simp add: get_user_info_def)
  have bc: "broadcast_to_room st others r m cm = (Returns, cm', ?evs @ evs')"
    using assms(2) sw dc res by (simp add: broadcast_to_room_def)
  have 1: "\<forall>c\<in>set conns. count_list ?evs (SendText c ?s)
      + count_list ?evs (SendTextRaised c ?s) = 1"
    using dist by (simp add: count_quiet_sent count_quiet_raised)
  have 2: "\<forall>c\<in>set conns. c \<noteq> f \<longrightarrow> count_list ?evs (SendText c ?s) = 1"
    using dist assms(5) by (simp add: count_quiet_sent)
  have 3: "count_list ?evs (SendText f ?s) = 0"
    using dist assms(4) by (simp add: count_quiet_sent)
  show ?thesis using sw 1 2 3 dc res bc gone by blast
qed

text \<open>At work: three connections in \<^verbatim>\<open>general\<close>, the send to websocket 2 raises.\<close>

theorem broadcast_one_failure_witness:
  "consistent (run three_in_general init_manager)
   \<and> active_connections (run three_in_general init_manager) ''general'' = Some [1, 2, 3]
   \<and> broken_2 2 (model_dump_json hello) \<noteq> None
   \<and> broken_2 1 (model_dump_json hello) = None
   \<and> broken_2 3 (model_dump_json hello) = None
   \<and> fst (broadcast_to_room broken_2 [] ''general'' hello (run three_in_general init_manager))
       = Returns
   \<and> get_user_info 2
        (fst (snd (broadcast_to_room broken_2 [] ''general'' hello
                     (run three_in_general init_manager)))) = None"
proof -
  have k: "consistent (run three_in_general init_manager)"
    using consistent_init by (rule run_consistent)
  have a: "active_connections (run three_in_general init_manager) ''general'' = Some [1, 2, 3]"
    by (simp add: registry_eval)
  have b: "(2::nat) \<in> set [1, 2, 3]" by simp
  have c: "broken_2 2 (model_dump_json hello) \<noteq> None" by (simp add: broken_2_def)
  have d: "\<forall>c\<in>set [1, 2, 3]. c \<noteq> 2 \<longrightarrow> broken_2 c (model_dump_json hello) = None"
    by (simp add: broken_2_def)
  have e: "concat ([] :: task_call list list) = []" by simp
  from broadcast_one_failure
    [of "run three_in_general init_manager" "''general''" "[1, 2, 3]" 2 broken_2 hello "[]"]
    k a b c d e
  have "fst (broadcast_to_room broken_2 [] ''general'' hello (run three_in_general init_manager))
       = Returns
   \<and> get_user_info 2
        (fst (snd (broadcast_to_room broken_2 [] ''general'' hello
                     (run three_in_general init_manager)))) = None"
    by auto
  then show ?thesis using k a c by (simp add: broken_2_def)
qed

subsection \<open>C3: the shape of every registry\<close>

text \<open>
  Claim C3, as amended. After every history of \<^verbatim>\<open>connect\<close>, \<^verbatim>\<open>disconnect\<close> and
  \<^verbatim>\<open>broadcast_to_room\<close> calls on a new registry, whatever the other tasks do during the
  broadcasts, \<^verbatim>\<open>active_connections\<close> and \<^verbatim>\<open>room_members\<close> have the same keys, no room has
  an empty connection set, and every websocket with a session is in some connection set.
  When every \<^verbatim>\<open>connect\<close>, of the history or of another task during a broadcast, is
  given a websocket no other \<^verbatim>\<open>connect\<close> is given, a websocket is in the connection set
  of at most one room. When moreover every \<^verbatim>\<open>connect\<close> is given a room id that is not
  the empty string and a \<^verbatim>\<open>User\<close> object no other \<^verbatim>\<open>connect\<close> is given, every
  websocket in a connection set has a session.
\<close>

theorem registry_invariant:
  "dom (active_connections (run cs init_manager)) = dom (room_members (run cs init_manager))
   \<and> (\<forall>r. active_connections (run cs init_manager) r \<noteq> Some [])
   \<and> (\<forall>w. user_sessions (run cs init_manager) w \<noteq> None
           \<longrightarrow> (\<exists>r. w \<in> room_connections (run cs init_manager) r))
   \<and> (distinct (connect_handles cs) \<longrightarrow>
        (\<forall>w r r'. w \<in> room_connections (run cs init_manager) r
                   \<and> w \<in> room_connections (run cs init_manager) r' \<longrightarrow> r = r'))
   \<and> (distinct (connect_handles cs) \<and> [] \<notin> set (connect_rooms cs)
        \<and> distinct (connect_objects cs) \<longrightarrow>
        (\<forall>w. (\<exists>r. w \<in> room_connections (run cs init_manager) r)
                \<longrightarrow> user_sessions (run cs init_manager) w \<noteq> None))"
proof (intro conjI impI)
  let ?cm = "run cs init_manager"
  have cons: "consistent ?cm" using consistent_init by (rule run_consistent)
  show "dom (active_connections ?cm) = dom (room_members ?cm)"
    using cons unfolding consistent_def by blast
  show "\<forall>r. active_connections ?cm r \<noteq> Some []"
    using cons unfolding consistent_def by blast
  have "seated ?cm" using consistent_init seated_init by (rule run_seated)
  then show "\<forall>w. user_sessions ?cm w \<noteq> None \<longrightarrow> (\<exists>r. w \<in> room_connections ?cm r)"
    unfolding seated_def seats_def by blast
next
  let ?cm = "run cs init_manager"
  assume h: "distinct (connect_handles cs)"
  have "seats init_manager = {}"
    by (simp add: seats_def room_connections_def init_manager_def)
  then have "one_room ?cm"
    using consistent_init one_room_init h by (intro run_one_room) simp_all
  then show "\<forall>w r r'. w \<in> room_connections ?cm r \<and> w \<in> room_connections ?cm r' \<longrightarrow> r = r'"
    unfolding one_room_def .
next
  let ?cm = "run cs init_manager"
  assume h: "distinct (connect_handles cs) \<and> [] \<notin> set (connect_rooms cs)
        \<and> distinct (connect_objects cs)"
  have "placed ?cm"
    using consistent_init placed_init h
    by (intro run_placed) (simp_all add: init_manager_def session_objects_def)
  then have 2: "\<And>r c w. active_connections ?cm r = Some c \<Longrightarrow> w \<in> set c \<Longrightarrow>
        \<exists>u. user_sessions ?cm w = Some u \<and> usr_current_room u = Some r"
    unfolding placed_def by blast
  show "\<forall>w. (\<exists>r. w \<in> room_connections ?cm r) \<longrightarrow> user_sessions ?cm w \<noteq> None"
  proof (intro allI impI)
    fix w
    assume "\<exists>r. w \<in> room_connections ?cm r"
    then obtain r c where "active_connections ?cm r = Some c" "w \<in> set c"
      by (auto simp: room_connections_def split: option.splits)
    then show "user_sessions ?cm w \<noteq> None" using 2 [of r c w] by auto
  qed
qed

text \<open>
  At work: after \<open>busy_day\<close> websocket 3 has a session and a room, and websocket 2, whose
  send raised, has neither.
\<close>

lemma busy_day_sessions:
  "user_sessions (run busy_day init_manager) 3 = Some (carol\<lparr>usr_current_room := Some ''general''\<rparr>)"
  "user_sessions (run busy_day init_manager) 2 = None"
  "user_sessions (run busy_day init_manager) 1 = None"
  by (simp_all add: registry_eval)

theorem registry_invariant_witness:
  "distinct (connect_handles busy_day) \<and> [] \<notin> set (connect_rooms busy_day)
   \<and> distinct (connect_objects busy_day)
   \<and> dom (active_connections (run busy_day init_manager))
       = dom (room_members (run busy_day init_manager))
   \<and> user_sessions (run busy_day init_manager) 3 \<noteq> None
   \<and> (\<exists>r. 3 \<in> room_connections (run busy_day init_manager) r)
   \<and> user_sessions (run busy_day init_manager) 2 = None
   \<and> \<not> (\<exists>r. 2 \<in> room_connections (run busy_day init_manager) r)"
proof -
  have h: "distinct (connect_handles busy_day) \<and> [] \<notin> set (connect_rooms busy_day)
      \<and> distinct (connect_objects busy_day)"
    by (simp add: busy_day_def connect_handles_def connect_rooms_def connect_objects_def
        alice_def bob_def carol_def)
  have "\<not> (\<exists>r. 2 \<in> room_connections (run busy_day init_manager) r)"
    using registry_invariant [of busy_day] h busy_day_sessions(2) by blast
  moreover have "\<exists>r. 3 \<in> room_connections (run busy_day init_manager) r"
    using registry_invariant [of busy_day] busy_day_sessions(1) by blast
  ultimately show ?thesis
    using registry_invariant [of busy_day] h busy_day_sessions by simp
qed

text \<open>
  The claim as it was stated fails in two ways, each with handles used once. After
  \<^verbatim>\<open>connect(1, alice, "")\<close> and \<^verbatim>\<open>disconnect(1)\<close> websocket 1 is in the connection set
  of the room with the empty id and has no session. And when one \<^verbatim>\<open>User\<close> object is
  given to two connects, for websocket 1 in \<^verbatim>\<open>general\<close> and then for websocket 2 in
  \<^verbatim>\<open>tech\<close>, the session of websocket 1 names \<^verbatim>\<open>tech\<close> from then on: \<^verbatim>\<open>disconnect(1)\<close>
  cleans the room \<^verbatim>\<open>tech\<close>, and websocket 1 is still in the connection set of
  \<^verbatim>\<open>general\<close> and has no session.
\<close>

theorem registry_invariant_counterexample:
  "distinct (connect_handles empty_room_id)
   \<and> 1 \<in> room_connections (run empty_room_id init_manager) []
   \<and> user_sessions (run empty_room_id init_manager) 1 = None
   \<and> distinct (connect_handles shared_user)
   \<and> [] \<notin> set (connect_rooms shared_user)
   \<and> 1 \<in> room_connections (run shared_user init_manager) ''general''
   \<and> user_sessions (run shared_user init_manager) 1 = None"
  by (simp add: registry_eval)

subsection \<open>C1: the member count\<close>

text \<open>
  Claim C1 says that \<^verbatim>\<open>get_room_member_count\<close> is the number of distinct user ids among
  the connections of the room, as the docstring of the function does (the number of
  unique users). The code does not keep that: two websockets connect to \<^verbatim>\<open>general\<close>
  with the user id \<^verbatim>\<open>u1\<close>, each with a handle and a \<^verbatim>\<open>User\<close> object of its own, and
  the first disconnects.
  Websocket 2 is still connected for \<^verbatim>\<open>u1\<close>, and the count is 0, since
  \<^verbatim>\<open>disconnect\<close> discards the id from the member set whatever other connections carry it.
\<close>

theorem member_count_same_user_twice:
  "distinct (connect_handles same_user_twice)
   \<and> active_connections (run same_user_twice init_manager) ''general'' = Some [2]
   \<and> map_option usr_id (get_user_info 2 (run same_user_twice init_manager)) = Some ''u1''
   \<and> get_room_member_count ''general'' (run same_user_twice init_manager) = 0
   \<and> room_members (run same_user_twice init_manager) ''general'' = Some []"
  by (simp add: registry_eval)

subsection \<open>The member count when every connection has a user id of its own\<close>

text \<open>
  What does hold of the count. After every history of \<^verbatim>\<open>connect\<close>, \<^verbatim>\<open>disconnect\<close> and
  \<^verbatim>\<open>broadcast_to_room\<close> calls on a new registry in which every \<^verbatim>\<open>connect\<close> is given a
  websocket no earlier \<^verbatim>\<open>connect\<close> was given, a room id that is not the empty string,
  and a \<^verbatim>\<open>User\<close> object and a user id no earlier \<^verbatim>\<open>connect\<close> was given, as
  \<^verbatim>\<open>websocket_endpoint\<close> does with a new object and a fresh \<^verbatim>\<open>uuid4()\<close> for each
  request, \<^verbatim>\<open>get_room_member_count(r)\<close> is the number of
  distinct user ids among the sessions of room \<open>r\<close>, which is the number of its
  connections, and when it is 0 the room has no entry in \<^verbatim>\<open>active_connections\<close> and
  none in \<^verbatim>\<open>room_members\<close>.
\<close>

theorem member_count_one_id_each:
  assumes "distinct (connect_handles cs)" and "[] \<notin> set (connect_rooms cs)"
    and "distinct (connect_objects cs)" and "distinct (connect_user_ids cs)"
  shows "get_room_member_count r (run cs init_manager)
           = card (session_ids (run cs init_manager) r)
         \<and> get_room_member_count r (run cs init_manager)
           = card (room_connections (run cs init_manager) r)
         \<and> (get_room_member_count r (run cs init_manager) = 0 \<longrightarrow>
              active_connections (run cs init_manager) r = None
              \<and> room_members (run cs init_manager) r = None)"
proof -
  let ?cm = "run cs init_manager"
  have k: "consistent ?cm" using consistent_init by (rule run_consistent)
  have "placed ?cm \<and> counted ?cm"
    using consistent_init placed_init counted_init assms
    by (intro run_counted)
       (simp_all add: init_manager_def all_session_ids_def session_objects_def)
  then have p: "placed ?cm" and c: "counted ?cm" by simp_all
  show ?thesis
  proof (cases "room_members ?cm r")
    case None
    then have a: "active_connections ?cm r = None"
      using k unfolding consistent_def by (metis domIff)
    have "session_ids ?cm r = {}" using no_sessions_no_members [OF k p None] .
    then show ?thesis using None a
      by (simp add: get_room_member_count_def room_connections_def)
  next
    case (Some m)
    then obtain conns where a: "active_connections ?cm r = Some conns"
      using k unfolding consistent_def by (metis domD domI)
    have dm: "distinct m" and dc: "distinct conns" and ne: "conns \<noteq> []"
      using k Some a unfolding consistent_def by blast+
    have sm: "set m = session_ids ?cm r" using c Some unfolding counted_def by blast
    have 1: "get_room_member_count r ?cm = card (session_ids ?cm r)"
      using Some dm sm by (simp add: get_room_member_count_def distinct_card [symmetric])
    define idof where "idof w = usr_id (the (user_sessions ?cm w))" for w
    have img: "session_ids ?cm r = idof ` set conns"
    proof (intro set_eqI iffI)
      fix i
      assume "i \<in> session_ids ?cm r"
      then obtain w u where u: "user_sessions ?cm w = Some u" "usr_current_room u = Some r"
          "usr_id u = i"
        unfolding session_ids_def by blast
      then have "w \<in> set conns" using p a unfolding placed_def by fastforce
      then show "i \<in> idof ` set conns" using u by (force simp: idof_def)
    next
      fix i
      assume "i \<in> idof ` set conns"
      then obtain w where w: "w \<in> set conns" "i = idof w" by blast
      then obtain u where "user_sessions ?cm w = Some u" "usr_current_room u = Some r"
        using p a unfolding placed_def by blast
      then show "i \<in> session_ids ?cm r" using w unfolding session_ids_def idof_def by force
    qed
    have inj: "inj_on idof (set conns)"
    proof (rule inj_onI)
      fix x y
      assume xy: "x \<in> set conns" "y \<in> set conns" "idof x = idof y"
      obtain u where u: "user_sessions ?cm x = Some u"
        using p a xy(1) unfolding placed_def by blast
      obtain v where v: "user_sessions ?cm y = Some v"
        using p a xy(2) unfolding placed_def by blast
      show "x = y" using c u v xy(3) unfolding counted_def idof_def by auto
    qed
    have 2: "card (session_ids ?cm r) = card (room_connections ?cm r)"
      using img inj a by (simp add: room_connections_def card_image)
    have "card (room_connections ?cm r) \<noteq> 0"
      using a ne dc by (simp add: room_connections_def distinct_card)
    then show ?thesis using 1 2 by simp
  qed
qed

text \<open>
  At work: after \<open>busy_day\<close> the room \<^verbatim>\<open>general\<close> has one member and one connection, and
  the room \<^verbatim>\<open>tech\<close>, whose only connection failed in a broadcast, has no entry.
\<close>

theorem member_count_one_id_each_witness:
  "distinct (connect_handles busy_day) \<and> [] \<notin> set (connect_rooms busy_day)
   \<and> distinct (connect_objects busy_day) \<and> distinct (connect_user_ids busy_day)
   \<and> get_room_member_count ''general'' (run busy_day init_manager) = 1
   \<and> card (room_connections (run busy_day init_manager) ''general'') = 1
   \<and> get_room_member_count ''tech'' (run busy_day init_manager) = 0
   \<and> active_connections (run busy_day init_manager) ''tech'' = None"
proof -
  have h: "distinct (connect_handles busy_day)" "[] \<notin> set (connect_rooms busy_day)"
    "distinct (connect_objects busy_day)" "distinct (connect_user_ids busy_day)"
    by (simp_all add: busy_day_def alice_def bob_def carol_def connect_handles_def
        connect_rooms_def connect_objects_def connect_user_ids_def)
  have v: "get_room_member_count ''general'' (run busy_day init_manager) = 1"
    "get_room_member_count ''tech'' (run busy_day init_manager) = 0"
    by (simp_all add: registry_eval)
  show ?thesis
    using h v member_count_one_id_each [OF h, of "''general''"]
      member_count_one_id_each [OF h, of "''tech''"]
    by simp
qed

text \<open>
  The room id must not be empty: after \<^verbatim>\<open>connect(1, alice, "")\<close> and \<^verbatim>\<open>disconnect(1)\<close>
  no session is left, and the count of the room is 1 and both its entries are still
  there.
\<close>

theorem member_count_empty_room_id:
  "distinct (connect_handles empty_room_id)
   \<and> user_sessions (run empty_room_id init_manager) 1 = None
   \<and> session_ids (run empty_room_id init_manager) [] = {}
   \<and> get_room_member_count [] (run empty_room_id init_manager) = 1
   \<and> active_connections (run empty_room_id init_manager) [] = Some [1]
   \<and> room_members (run empty_room_id init_manager) [] = Some [''u1'']"
  by (simp add: registry_eval session_ids_def)

section \<open>The claims about the relay\<close>

subsection \<open>C10: the relay before it is connected\<close>

text \<open>
  Claim C10. \<^verbatim>\<open>publish_message\<close> on a relay without a Redis client, and
  \<^verbatim>\<open>subscribe_to_room\<close> on a relay without a \<^verbatim>\<open>PubSub\<close> object, return without raising,
  log one error and leave the relay as it was, whatever the broker would have answered;
  so do both on a relay that was never connected. Neither call ever raises.
\<close>

theorem relay_before_connect:
  "(redis_client rm = None \<longrightarrow>
      publish_message publish room_id message rm
        = (Returns, rm, [LogError ''Redis client not connected'']))
   \<and> (pubsub rm = None \<longrightarrow>
      subscribe_to_room subscribe room_id rm
        = (Returns, rm, [LogError ''PubSub not initialized'']))
   \<and> publish_message publish room_id message (RedisManager_init url)
        = (Returns, RedisManager_init url, [LogError ''Redis client not connected''])
   \<and> subscribe_to_room subscribe room_id (RedisManager_init url)
        = (Returns, RedisManager_init url, [LogError ''PubSub not initialized''])
   \<and> fst (publish_message publish room_id message rm) = Returns
   \<and> fst (subscribe_to_room subscribe room_id rm) = Returns"
  by (simp add: publish_message_def subscribe_to_room_def RedisManager_init_def Let_def
      split: option.splits)

text \<open>At work: the relay after a \<^verbatim>\<open>connect()\<close> that raised on an unreachable broker.\<close>

theorem relay_before_connect_witness:
  "redis_client (fst (snd (redis_connect (FromUrlRaises (Failure ''refused''))
                            (RedisManager_init ''redis://localhost:6379'')))) = None
   \<and> pubsub (fst (snd (redis_connect (FromUrlRaises (Failure ''refused''))
                            (RedisManager_init ''redis://localhost:6379'')))) = None
   \<and> publish_message (\<lambda>ch s. None) ''general'' hello
        (fst (snd (redis_connect (FromUrlRaises (Failure ''refused''))
                            (RedisManager_init ''redis://localhost:6379''))))
       = (Returns, RedisManager_init ''redis://localhost:6379'',
          [LogError ''Redis client not connected''])
   \<and> subscribe_to_room (\<lambda>ch. None) ''general''
        (fst (snd (redis_connect (FromUrlRaises (Failure ''refused''))
                            (RedisManager_init ''redis://localhost:6379''))))
       = (Returns, RedisManager_init ''redis://localhost:6379'',
          [LogError ''PubSub not initialized''])"
proof -
  have a: "fst (snd (redis_connect (FromUrlRaises (Failure ''refused''))
                            (RedisManager_init ''redis://localhost:6379'')))
           = RedisManager_init ''redis://localhost:6379''"
    by (simp add: redis_connect_def)
  have b: "redis_client (RedisManager_init ''redis://localhost:6379'') = None"
    "pubsub (RedisManager_init ''redis://localhost:6379'') = None"
    by (simp_all add: RedisManager_init_def)
  show ?thesis
    unfolding a
    using b relay_before_connect [of "RedisManager_init ''redis://localhost:6379''"
        "\<lambda>ch s. None" "''general''" hello "\<lambda>ch. None" "''redis://localhost:6379''"]
    by simp
qed

subsection \<open>C7: the listener loop\<close>

text \<open>
  Claim C7. Whatever the handler and the decoder do, a run of broker events never ends
  the loop of \<^verbatim>\<open>start_listening\<close>: after the events the loop awaits the next item, and
  the items that follow are processed from the registry the events left. An event whose
  type is not \<^verbatim>\<open>message\<close> is skipped. For a data message the room id is the part of
  the channel name after its first colon; a channel without a colon and a payload that
  does not decode are logged and the handler is not called; a payload that decodes is
  handed to the handler with that room id, and an exception of the handler is logged.
\<close>

theorem listener_survives:
  "fst (listen h decode (map Event evs) cm) = Awaiting
   \<and> listen h decode (map Event evs @ rest) cm =
       (case listen h decode (map Event evs) cm of
          (l, cm', out) \<Rightarrow>
            (case listen h decode rest cm' of (l2, cm2, out2) \<Rightarrow> (l2, cm2, out @ out2)))
   \<and> (pubsub rm \<noteq> None \<longrightarrow>
        start_listening decode (map Event evs) rm cm =
          (Awaiting, fst (snd (listen (message_handler rm) decode (map Event evs) cm)),
           LogInfo ''Started Redis listener''
             # snd (snd (listen (message_handler rm) decode (map Event evs) cm))))
   \<and> (ev_type ev \<noteq> ''message'' \<longrightarrow> listen h decode [Event ev] cm = (Awaiting, cm, []))
   \<and> (ev_type ev = ''message'' \<and> CHR '':'' \<notin> set (ev_channel ev) \<longrightarrow>
        listen h decode [Event ev] cm
          = (Awaiting, cm, [LogException ''Error processing message: '' IndexError]))
   \<and> (ev_type ev = ''message'' \<and> ev_channel ev = pre @ CHR '':'' # room
        \<and> CHR '':'' \<notin> set pre \<and> decode (ev_data ev) = Inl e \<longrightarrow>
        listen h decode [Event ev] cm
          = (Awaiting, cm, [LogException ''Error processing message: '' e]))
   \<and> (ev_type ev = ''message'' \<and> ev_channel ev = pre @ CHR '':'' # room
        \<and> CHR '':'' \<notin> set pre \<and> decode (ev_data ev) = Inr msg \<longrightarrow>
        listen (Some handle) decode [Event ev] cm
          = (case handle room msg cm of
               (Returns, cm', out) \<Rightarrow> (Awaiting, cm', out)
             | (Raises x, cm', out) \<Rightarrow>
                 (Awaiting, cm', out @ [LogException ''Error processing message: '' x]))
        \<and> listen None decode [Event ev] cm = (Awaiting, cm, []))"
proof (intro conjI impI)
  show "fst (listen h decode (map Event evs) cm) = Awaiting" by (rule listen_awaits)
  show "listen h decode (map Event evs @ rest) cm =
       (case listen h decode (map Event evs) cm of
          (l, cm', out) \<Rightarrow>
            (case listen h decode rest cm' of (l2, cm2, out2) \<Rightarrow> (l2, cm2, out @ out2)))"
    by (rule listen_append)
next
  assume "pubsub rm \<noteq> None"
  then show "start_listening decode (map Event evs) rm cm =
          (Awaiting, fst (snd (listen (message_handler rm) decode (map Event evs) cm)),
           LogInfo ''Started Redis listener''
             # snd (snd (listen (message_handler rm) decode (map Event evs) cm)))"
    using listen_awaits [of "message_handler rm" decode evs cm]
    by (auto simp: start_listening_def split: prod.splits)
next
  assume "ev_type ev \<noteq> ''message''"
  then show "listen h decode [Event ev] cm = (Awaiting, cm, [])" by simp
next
  assume "ev_type ev = ''message'' \<and> CHR '':'' \<notin> set (ev_channel ev)"
  then show "listen h decode [Event ev] cm
          = (Awaiting, cm, [LogException ''Error processing message: '' IndexError])"
    by (simp add: process_message_def after_colon_none)
next
  assume "ev_type ev = ''message'' \<and> ev_channel ev = pre @ CHR '':'' # room
        \<and> CHR '':'' \<notin> set pre \<and> decode (ev_data ev) = Inl e"
  then show "listen h decode [Event ev] cm
          = (Awaiting, cm, [LogException ''Error processing message: '' e])"
    by (simp add: process_message_def after_colon_split)
next
  assume a: "ev_type ev = ''message'' \<and> ev_channel ev = pre @ CHR '':'' # room
        \<and> CHR '':'' \<notin> set pre \<and> decode (ev_data ev) = Inr msg"
  then show "listen (Some handle) decode [Event ev] cm
          = (case handle room msg cm of
               (Returns, cm', out) \<Rightarrow> (Awaiting, cm', out)
             | (Raises x, cm', out) \<Rightarrow>
                 (Awaiting, cm', out @ [LogException ''Error processing message: '' x]))"
    by (simp add: process_message_def after_colon_split split: prod.splits outcome.splits)
  from a show "listen None decode [Event ev] cm = (Awaiting, cm, [])"
    by (simp add: process_message_def after_colon_split)
qed


text \<open>
  At work, on the relay after start-up and a room of three: a subscription notice, a
  payload that is not JSON and a good payload. The third event is delivered to all three
  connections although the second failed.
\<close>

theorem listener_survives_witness:
  "ev_type ev_subscribed \<noteq> ''message''
   \<and> listen (Some (handle_redis_message (\<lambda>c s. None) [])) decode_hello [Event ev_subscribed]
        (run three_in_general init_manager)
       = (Awaiting, run three_in_general init_manager, [])
   \<and> ev_type ev_garbled = ''message''
   \<and> decode_hello (ev_data ev_garbled) = Inl (Failure ''Expecting value'')
   \<and> listen (Some (handle_redis_message (\<lambda>c s. None) [])) decode_hello [Event ev_garbled]
        (run three_in_general init_manager)
       = (Awaiting, run three_in_general init_manager,
          [LogException ''Error processing message: '' (Failure ''Expecting value'')])
   \<and> ev_type ev_hello = ''message'' \<and> decode_hello (ev_data ev_hello) = Inr hello
   \<and> listen (Some (handle_redis_message (\<lambda>c s. None) [])) decode_hello
        (map Event [ev_subscribed, ev_garbled] @ [Event ev_hello])
        (run three_in_general init_manager)
       = (Awaiting, run three_in_general init_manager,
          [LogException ''Error processing message: '' (Failure ''Expecting value''),
           SendText 1 (model_dump_json hello), SendText 2 (model_dump_json hello),
           SendText 3 (model_dump_json hello)])
   \<and> pubsub (redis_manager after_startup) \<noteq> None
   \<and> start_listening decode_hello (map Event [ev_subscribed, ev_garbled, ev_hello])
        (redis_manager after_startup) (run three_in_general init_manager)
       = (Awaiting, run three_in_general init_manager,
          [LogInfo ''Started Redis listener'',
           LogException ''Error processing message: '' (Failure ''Expecting value''),
           SendText 1 (model_dump_json hello), SendText 2 (model_dump_json hello),
           SendText 3 (model_dump_json hello)])"
proof -
  let ?h = "Some (handle_redis_message (\<lambda>c s. None) [])"
  let ?cm = "run three_in_general init_manager"
  have t: "ev_type ev_subscribed \<noteq> ''message''" "ev_type ev_garbled = ''message''"
    "ev_type ev_hello = ''message''"
    "ev_channel ev_garbled = ''room'' @ CHR '':'' # ''general''"
    "ev_channel ev_hello = ''room'' @ CHR '':'' # ''general''"
    "CHR '':'' \<notin> set ''room''"
    "decode_hello (ev_data ev_garbled) = Inl (Failure ''Expecting value'')"
    "decode_hello (ev_data ev_hello) = Inr hello"
    by (simp_all add: ev_subscribed_def ev_garbled_def ev_hello_def decode_hello_def)
  have a: "active_connections ?cm ''general'' = Some [1, 2, 3]"
    by (simp add: registry_eval)
  have b: "handle_redis_message (\<lambda>c s. None) [] ''general'' hello ?cm
      = (Returns, ?cm, [SendText 1 (model_dump_json hello), SendText 2 (model_dump_json hello),
           SendText 3 (model_dump_json hello)])"
    by (simp add: handle_redis_message_def broadcast_to_room_def a)
  note s1 = listener_survives [of ?h decode_hello "[]" ?cm "[]" "redis_manager after_startup" ev_subscribed]
  note s2 = listener_survives [of ?h decode_hello "[]" ?cm "[]" "redis_manager after_startup" ev_garbled
      "''room''" "''general''" "Failure ''Expecting value''"]
  note s3 = listener_survives [of ?h decode_hello "[]" ?cm "[]" "redis_manager after_startup" ev_hello
      "''room''" "''general''" _ hello "handle_redis_message (\<lambda>c s. None) []"]
  note s4 = listener_survives [of ?h decode_hello "[ev_subscribed, ev_garbled]" ?cm
      "[Event ev_hello]"]
  note s5 = listener_survives [of ?h decode_hello "[ev_subscribed, ev_garbled, ev_hello]" ?cm
      "[]" "redis_manager after_startup"]
  have r: "pubsub (redis_manager after_startup) \<noteq> None"
    "message_handler (redis_manager after_startup) = ?h"
    by (simp_all add: after_startup_def started_def set_message_handler_def redis_connect_def
        RedisManager_init_def)
  have 1: "listen ?h decode_hello [Event ev_subscribed] ?cm = (Awaiting, ?cm, [])"
    using s1 t by blast
  have 2: "listen ?h decode_hello [Event ev_garbled] ?cm
      = (Awaiting, ?cm, [LogException ''Error processing message: '' (Failure ''Expecting value'')])"
    using s2 t by blast
  have 3: "listen ?h decode_hello [Event ev_hello] ?cm
      = (Awaiting, ?cm, [SendText 1 (model_dump_json hello), SendText 2 (model_dump_json hello),
           SendText 3 (model_dump_json hello)])"
    using s3 t b by simp
  have 12: "listen ?h decode_hello (map Event [ev_subscribed, ev_garbled]) ?cm
      = (Awaiting, ?cm, [LogException ''Error processing message: '' (Failure ''Expecting value'')])"
    using 2 t by simp
  have 4: "listen ?h decode_hello (map Event [ev_subscribed, ev_garbled] @ [Event ev_hello]) ?cm
      = (Awaiting, ?cm,
          [LogException ''Error processing message: '' (Failure ''Expecting value''),
           SendText 1 (model_dump_json hello), SendText 2 (model_dump_json hello),
           SendText 3 (model_dump_json hello)])"
    using s4 12 3 by simp
  have 5: "start_listening decode_hello (map Event [ev_subscribed, ev_garbled, ev_hello])
        (redis_manager after_startup) ?cm
       = (Awaiting, ?cm,
          [LogInfo ''Started Redis listener'',
           LogException ''Error processing message: '' (Failure ''Expecting value''),
           SendText 1 (model_dump_json hello), SendText 2 (model_dump_json hello),
           SendText 3 (model_dump_json hello)])"
    using s5 r 4 by simp
  show ?thesis using t r(1) 1 2 4 5 by simp
qed


section \<open>The claims about the gateway\<close>

subsection \<open>C9: a request for an unknown room\<close>

text \<open>
  Claim C9. When the room id of a request has no entry in \<^verbatim>\<open>rooms_db\<close>,
  \<^verbatim>\<open>websocket_endpoint\<close> closes the websocket with code 1008 and the reason
  \<^verbatim>\<open>Room not found\<close> and returns: that close is the only thing it does, so there is no
  \<^verbatim>\<open>connect\<close>, no subscription and no publication, and the registry, the relay and the
  room metadata are as they were.
\<close>

theorem unknown_room_rejected:
  "rooms_db app room_id = None \<Longrightarrow>
   websocket_endpoint w websocket room_id query_username user_id user_object now inbox app
     = (Rejected, app, [Close websocket 1008 ''Room not found''])"
  by (simp add: websocket_endpoint_def Let_def)

text \<open>At work: a request for the room \<^verbatim>\<open>cellar\<close> after start-up.\<close>

theorem unknown_room_rejected_witness:
  "rooms_db (started ''redis://localhost:6379'' (\<lambda>c s. None) [] noon) ''cellar'' = None
   \<and> websocket_endpoint calm 7 ''cellar'' (Some ''dave'') ''u7'' 7 noon [Text ''hi'' noon]
        (started ''redis://localhost:6379'' (\<lambda>c s. None) [] noon)
       = (Rejected, started ''redis://localhost:6379'' (\<lambda>c s. None) [] noon,
          [Close 7 1008 ''Room not found''])"
proof -
  have a: "rooms_db (started ''redis://localhost:6379'' (\<lambda>c s. None) [] noon) ''cellar'' = None"
    by (simp add: started_def default_rooms_def)
  show ?thesis using a unknown_room_rejected [OF a] by simp
qed

subsection \<open>C4: leaving the active state\<close>

lemmas gateway_eval = websocket_endpoint_def after_startup_def started_def default_rooms_def
  calm_def set_message_handler_def redis_connect_def RedisManager_init_def
  subscribe_to_room_def publish_message_def bob_joined_def bob_left_def

text \<open>
  Claim C4 says that a connection that leaves the active state by a read error is
  disconnected from the registry and that one leave message is published for it, as for
  a connection that leaves by \<^verbatim>\<open>WebSocketDisconnect\<close>. The code does the first only: the
  clause \<^verbatim>\<open>except Exception\<close> (lines 222 to 224) logs the error and calls
  \<^verbatim>\<open>disconnect\<close>, and publishes nothing, while the clause \<^verbatim>\<open>except WebSocketDisconnect\<close>
  (lines 206 to 220) publishes the leave message. Bob joins \<^verbatim>\<open>general\<close> and his first
  read raises: the join message is the only publication. When his first read raises
  \<^verbatim>\<open>WebSocketDisconnect\<close> instead, the leave message follows.
\<close>

theorem read_error_publishes_no_leave:
  "fst (websocket_endpoint calm 2 ''general'' (Some ''bob'') ''u2'' 2 noon
          [ReceiveRaises (Failure ''no text frame'')] after_startup) = Closed
   \<and> snd (snd (websocket_endpoint calm 2 ''general'' (Some ''bob'') ''u2'' 2 noon
          [ReceiveRaises (Failure ''no text frame'')] after_startup))
       = [Accept 2, LogInfo ''User bob connected to room general'',
          Subscribe ''room:general'', LogInfo ''Subscribed to room:general'',
          Publish ''room:general'' (model_dump_json bob_joined),
          LogDebug ''Published message to room:general'',
          LogException ''Error in WebSocket connection: '' (Failure ''no text frame''),
          LogInfo ''User bob disconnected from room general'']
   \<and> get_user_info 2 (connection_manager (fst (snd
         (websocket_endpoint calm 2 ''general'' (Some ''bob'') ''u2'' 2 noon
            [ReceiveRaises (Failure ''no text frame'')] after_startup)))) = None
   \<and> snd (snd (websocket_endpoint calm 2 ''general'' (Some ''bob'') ''u2'' 2 noon
          [WebSocketDisconnect noon] after_startup))
       = [Accept 2, LogInfo ''User bob connected to room general'',
          Subscribe ''room:general'', LogInfo ''Subscribed to room:general'',
          Publish ''room:general'' (model_dump_json bob_joined),
          LogDebug ''Published message to room:general'',
          LogInfo ''User bob disconnected from room general'',
          Publish ''room:general'' (model_dump_json bob_left),
          LogDebug ''Published message to room:general'',
          LogInfo ''User bob disconnected from room general'']"
  by (simp add: gateway_eval registry_eval)

subsection \<open>The publications of a session\<close>

text \<open>
  What does hold of join and leave messages, for every request to a known room on a
  consistent registry with the relay connected, the transport accepting and the broker
  taking every publication. The session publishes its join message once and first, then
  one chat message for each text received, in order, and at the end one leave message
  when the read raises \<^verbatim>\<open>WebSocketDisconnect\<close>, and nothing when the read raises another
  exception. Each message carries the user id, the username and the room id of the
  session.
\<close>

theorem gateway_publications:
  assumes "rooms_db app room \<noteq> None"
    and "consistent (connection_manager app)"
    and "redis_client (redis_manager app) \<noteq> None"
    and "accepts w" and "publishes w = (\<lambda>ch s. None)"
  shows "published (snd (snd (websocket_endpoint w ws room (Some un) uid obj now
            (map (\<lambda>(d, t). Text d t) texts @ [final]) app)))
     = (''room:'' @ room,
        model_dump_json (session_message uid un room (un @ '' joined the room'') JOIN now))
       # map (\<lambda>(d, t). (''room:'' @ room,
                          model_dump_json (session_message uid un room d CHAT t))) texts
       @ (case final of
            WebSocketDisconnect t \<Rightarrow>
              [(''room:'' @ room,
                model_dump_json (session_message uid un room (un @ '' left the room'') LEAVE t))]
          | Text d t \<Rightarrow>
              [(''room:'' @ room, model_dump_json (session_message uid un room d CHAT t))]
          | ReceiveRaises e \<Rightarrow> [])"
proof -
  let ?u = "\<lparr>usr_object = obj, usr_id = uid, usr_username = un,
             usr_current_room = Some room\<rparr>"
  let ?cm = "connection_manager app"
  obtain cm1 evs where c: "connect (accepts w) ws ?u room ?cm = (Returns, cm1, evs)"
    using connect_returns [OF assms(2), of "accepts w" ws ?u room] assms(4)
    by (cases "connect (accepts w) ws ?u room ?cm") auto
  have k1: "consistent cm1"
    using connect_consistent [OF assms(2), of "accepts w" ws ?u room] c by simp
  have e0: "published evs = []"
    using c assms(4) connect_fields [OF assms(2), of ws ?u room] by auto
  obtain r1 rm1 evs1 where s: "subscribe_to_room (subscribes w) room (redis_manager app)
      = (r1, rm1, evs1)"
    by (cases "subscribe_to_room (subscribes w) room (redis_manager app)") auto
  have rm1: "redis_client rm1 \<noteq> None" and e1: "published evs1 = []"
    using subscribe_to_room_client [of "subscribes w" room "redis_manager app"] s assms(3)
    by simp_all
  let ?app = "app\<lparr>connection_manager := cm1, redis_manager := rm1\<rparr>"
  have d: "fst (disconnect ws (connection_manager ?app)) = Returns"
    using disconnect_consistent [OF k1, of ws] by simp
  have loop: "published (snd (snd (receive_loop w ws uid un room
            (map (\<lambda>(d, t). Text d t) texts @ [final]) ?app)))
     = map (\<lambda>(d, t). (''room:'' @ room, model_dump_json (session_message uid un room d CHAT t)))
         texts
       @ (case final of
            WebSocketDisconnect t \<Rightarrow>
              [(''room:'' @ room,
                model_dump_json (session_message uid un room (un @ '' left the room'') LEAVE t))]
          | Text d t \<Rightarrow>
              [(''room:'' @ room, model_dump_json (session_message uid un room d CHAT t))]
          | ReceiveRaises e \<Rightarrow> [])"
    using receive_loop_published [of ?app w ws uid un room texts final] rm1 assms(5) d
    by (simp split: received.splits)
  show ?thesis
    using assms(1) c s rm1 assms(5) e0 e1 loop
    by (simp add: websocket_endpoint_def Let_def publish_message_working session_message_def
        case_prod_beta)
qed


text \<open>At work: Bob says \<^verbatim>\<open>hi\<close> and leaves, either way.\<close>

theorem gateway_publications_witness:
  "rooms_db after_startup ''general'' \<noteq> None
   \<and> consistent (connection_manager after_startup)
   \<and> redis_client (redis_manager after_startup) \<noteq> None
   \<and> accepts calm
   \<and> published (snd (snd (websocket_endpoint calm 2 ''general'' (Some ''bob'') ''u2'' 2 noon
          (map (\<lambda>(d, t). Text d t) [(''hi'', noon)] @ [WebSocketDisconnect noon])
          after_startup)))
       = [(''room:general'', model_dump_json bob_joined),
          (''room:general'',
           model_dump_json (session_message ''u2'' ''bob'' ''general'' ''hi'' CHAT noon)),
          (''room:general'', model_dump_json bob_left)]
   \<and> published (snd (snd (websocket_endpoint calm 2 ''general'' (Some ''bob'') ''u2'' 2 noon
          (map (\<lambda>(d, t). Text d t) [(''hi'', noon)] @ [ReceiveRaises (Failure ''no text frame'')])
          after_startup)))
       = [(''room:general'', model_dump_json bob_joined),
          (''room:general'',
           model_dump_json (session_message ''u2'' ''bob'' ''general'' ''hi'' CHAT noon))]"
proof -
  have a: "rooms_db after_startup ''general'' \<noteq> None"
    "redis_client (redis_manager after_startup) \<noteq> None"
    "accepts calm" "publishes calm = (\<lambda>ch s. None)"
    by (simp_all add: after_startup_def started_def default_rooms_def calm_def
        set_message_handler_def redis_connect_def RedisManager_init_def)
  have k: "consistent (connection_manager after_startup)"
    by (simp add: after_startup_def started_def consistent_init)
  note g = gateway_publications [OF a(1) k a(2) a(3) a(4), of 2 "''bob''" "''u2''" 2 noon
      "[(''hi'', noon)]"]
  show ?thesis
    using a(1,2,3) k g [of "WebSocketDisconnect noon"]
      g [of "ReceiveRaises (Failure ''no text frame'')"]
    by (simp add: bob_joined_def bob_left_def session_message_def)
qed

section \<open>The claim about the wire form\<close>

subsection \<open>C8: a message survives the wire\<close>

text \<open>
  Claim C8. For every \<^verbatim>\<open>Message\<close> whose timestamp is a value that a \<^verbatim>\<open>datetime\<close> can
  hold, decoding what \<^verbatim>\<open>model_dump_json\<close> writes gives the message back: the four
  strings whatever characters they hold, the member of \<^verbatim>\<open>MessageType\<close>, and the
  timestamp down to the microsecond, whatever the time of the decoding is.
\<close>

theorem message_round_trip:
  "valid_datetime (msg_timestamp m) \<Longrightarrow> decode_message now (model_dump_json m) = Inr m"
proof -
  assume v: "valid_datetime (msg_timestamp m)"
  have whole: "\<lparr>msg_user_id = msg_user_id m, msg_username = msg_username m,
      msg_room_id = msg_room_id m, msg_content = msg_content m,
      msg_message_type = msg_message_type m, msg_timestamp = msg_timestamp m\<rparr> = m"
    by simp
  have "Message_validate now
          [(''user_id'', msg_user_id m), (''username'', msg_username m),
           (''room_id'', msg_room_id m), (''content'', msg_content m),
           (''message_type'', MessageType_value (msg_message_type m)),
           (''timestamp'', isoformat (msg_timestamp m))] = Inr m"
    unfolding Message_validate_def
    by (simp add: Let_def whole parse_datetime_isoformat [OF v]
        MessageType_of_value_value del: MessageType_of_value.simps)
  then show ?thesis
    by (simp add: decode_message_def json_loads_model_dump_json)
qed

text \<open>At work: the message \<open>hello\<close>, decoded seven years after it was made.\<close>

theorem message_round_trip_witness:
  "valid_datetime (msg_timestamp hello)
   \<and> decode_message (noon\<lparr>dt_year := 2031\<rparr>) (model_dump_json hello) = Inr hello"
proof -
  have v: "valid_datetime (msg_timestamp hello)"
    by (simp add: valid_datetime_def hello_def noon_def days_in_month_def)
  show ?thesis using v message_round_trip [OF v] by simp
qed

end
